theory Spec2Isabelle
  imports Main "HOL-Library.AList" "HOL-Library.Char_ord" "HOL-Library.List_Lexorder"
    "HOL-Library.Sublist"
begin

section \<open>modify\_gitops.py: pausing and resuming image updates through pull requests\<close>

text \<open>
  The script \<^verbatim>\<open>lessons/200/k8s-private-repo/modify_gitops.py\<close> reads the ArgoCD
  Application manifests of an environment from a GitHub repository, changes one annotation
  in each, commits the result to a new branch and opens a pull request.

  The embedding follows the script function by function. Python exceptions are values of
  the type \<open>error\<close> and every function that can raise returns \<open>error + 'a\<close>. The GitHub
  client (PyGithub) and the YAML library (PyYAML) are not part of the repository: the
  client enters as a record of functions over an arbitrary remote state \<open>'w\<close>, and of the
  YAML library only the part the script relies on is written out. The calls made to the
  client are recorded, in order, in a trace. Calls to \<^verbatim>\<open>logging\<close> are left out.
\<close>

subsection \<open>Python values and exceptions\<close>

datatype error =
    KeyError string
  | TypeError
  | AttributeError string
  | NameError string
  | GithubException nat
  | YAMLError
  | UnicodeDecodeError

text \<open>
  The objects \<^verbatim>\<open>yaml.safe_load\<close> builds: scalars, lists and dicts. A dict is the list of
  its items in insertion order. Floats, timestamps, binaries and sets are left out. A value
  of this type is a tree: a document without aliases, in which every list and every dict is
  reached along one path. Documents in which an object is shared come further down.
\<close>

datatype key = KNone | KBool bool | KInt int | KStr string

datatype pyval =
    VNone
  | VBool bool
  | VInt int
  | VStr string
  | VList "pyval list"
  | VDict "(key \<times> pyval) list"

text \<open>A value that is a string or \<^verbatim>\<open>None\<close>, and its rendering inside an f-string.\<close>

fun fmt :: "string option \<Rightarrow> string" where
  "fmt None = ''None''"
| "fmt (Some s) = s"

text \<open>\<^verbatim>\<open>obj[name]\<close> for a string \<open>name\<close>.\<close>

fun subscript :: "pyval \<Rightarrow> string \<Rightarrow> error + pyval" where
  "subscript (VDict items) name =
     (case map_of items (KStr name) of None \<Rightarrow> Inl (KeyError name) | Some v \<Rightarrow> Inr v)"
| "subscript v name = Inl TypeError"

text \<open>
  The dict key that an argument equals when the argument is a string or \<^verbatim>\<open>None\<close>, the
  two kinds of value the script uses as a key: a string equals the same string and
  \<^verbatim>\<open>None\<close> equals \<^verbatim>\<open>None\<close>, and neither equals a key of another type.
\<close>

fun arg_key :: "string option \<Rightarrow> key" where
  "arg_key None = KNone"
| "arg_key (Some s) = KStr s"

text \<open>
  \<^verbatim>\<open>obj[k] = v\<close> for a string \<open>k\<close>: the object after the assignment. A new key goes to
  the end.
\<close>

fun setitem :: "pyval \<Rightarrow> string \<Rightarrow> pyval \<Rightarrow> error + pyval" where
  "setitem (VDict items) k v = Inr (VDict (AList.update (KStr k) v items))"
| "setitem obj k v = Inl TypeError"

text \<open>
  \<^verbatim>\<open>obj.pop(k, None)\<close> for \<open>k\<close> a string or \<^verbatim>\<open>None\<close>: the object after the call. A dict
  drops the key when it has it; a list refuses the second argument; no other value has a
  method \<^verbatim>\<open>pop\<close>.
\<close>

fun pop_default :: "pyval \<Rightarrow> string option \<Rightarrow> error + pyval" where
  "pop_default (VDict items) k = Inr (VDict (AList.delete (arg_key k) items))"
| "pop_default (VList xs) k = Inl TypeError"
| "pop_default obj k = Inl (AttributeError ''pop'')"

text \<open>
  The dict under \<open>name\<close> seen from its owner after it was mutated in place: the owner holds
  the new state of the object under the same key, at the same position. In a tree the object
  has this one owner.
\<close>

fun replace_item :: "pyval \<Rightarrow> string \<Rightarrow> pyval \<Rightarrow> pyval" where
  "replace_item (VDict items) name v = VDict (AList.update (KStr name) v items)"
| "replace_item obj name v = obj"

text \<open>
  A statement that mutates \<^verbatim>\<open>app['metadata']['annotations']\<close>: both subscripts are
  evaluated first, then the mutation \<open>f\<close> runs on the object found there.
\<close>

definition with_annotations :: "(pyval \<Rightarrow> error + pyval) \<Rightarrow> pyval \<Rightarrow> error + pyval" where
  "with_annotations f app =
     (case subscript app ''metadata'' of
        Inl e \<Rightarrow> Inl e
      | Inr md \<Rightarrow>
          (case subscript md ''annotations'' of
             Inl e \<Rightarrow> Inl e
           | Inr an \<Rightarrow>
               (case f an of
                  Inl e \<Rightarrow> Inl e
                | Inr an' \<Rightarrow>
                    Inr (replace_item app ''metadata'' (replace_item md ''annotations'' an')))))"

text \<open>Line 60: \<^verbatim>\<open>app['metadata']['annotations'][annotation_key] = '*'\<close>.\<close>

definition set_annotation :: "pyval \<Rightarrow> string \<Rightarrow> error + pyval" where
  "set_annotation app k = with_annotations (\<lambda>an. setitem an k (VStr ''*'')) app"

text \<open>Line 62: \<^verbatim>\<open>app['metadata']['annotations'].pop(annotation_key, None)\<close>.\<close>

definition pop_annotation :: "pyval \<Rightarrow> string option \<Rightarrow> error + pyval" where
  "pop_annotation app k = with_annotations (\<lambda>an. pop_default an k) app"

text \<open>
  Lines 59 to 62. The parameter \<^verbatim>\<open>annotation_key\<close> is a string or \<^verbatim>\<open>None\<close>; the test
  \<^verbatim>\<open>if annotation_key:\<close> holds for a string that is not empty. The other branch pops the
  very value it was given, \<^verbatim>\<open>None\<close> or the empty string.
\<close>

definition mutate_annotations :: "pyval \<Rightarrow> string option \<Rightarrow> error + pyval" where
  "mutate_annotations app annotation_key =
     (case annotation_key of
        Some k \<Rightarrow> if k \<noteq> [] then set_annotation app k else pop_annotation app (Some k)
      | None \<Rightarrow> pop_annotation app None)"

subsection \<open>Documents with shared objects\<close>

text \<open>
  \<^verbatim>\<open>yaml.safe_load\<close> gives an alias (\<^verbatim>\<open>*a\<close>) the very object it built for the anchor
  (\<^verbatim>\<open>&a\<close>): a list or a dict can then be reached along several paths, and line 60 changes
  it for all of them. Such a document is a root together with a store of objects under
  addresses; a value in it is a scalar or a reference to an object of the store.
\<close>

datatype 'a cell = CNone | CBool bool | CInt int | CStr string | Ref 'a

datatype 'a obj = OList "'a cell list" | ODict "(key \<times> 'a cell) list"

record 'a shared_doc =
  doc_root :: "'a cell"
  doc_store :: "'a \<rightharpoonup> 'a obj"

text \<open>\<^verbatim>\<open>obj[name]\<close> and \<^verbatim>\<open>obj[k] = v\<close> through a reference: the second changes the store.\<close>

fun cell_subscript :: "('a \<rightharpoonup> 'a obj) \<Rightarrow> 'a cell \<Rightarrow> string \<Rightarrow> error + 'a cell" where
  "cell_subscript s (Ref a) name =
     (case s a of
        Some (ODict items) \<Rightarrow>
          (case map_of items (KStr name) of None \<Rightarrow> Inl (KeyError name) | Some v \<Rightarrow> Inr v)
      | _ \<Rightarrow> Inl TypeError)"
| "cell_subscript s v name = Inl TypeError"

fun cell_setitem ::
  "('a \<rightharpoonup> 'a obj) \<Rightarrow> 'a cell \<Rightarrow> string \<Rightarrow> 'a cell \<Rightarrow> error + ('a \<rightharpoonup> 'a obj)" where
  "cell_setitem s (Ref a) k v =
     (case s a of
        Some (ODict items) \<Rightarrow> Inr (s(a \<mapsto> ODict (AList.update (KStr k) v items)))
      | _ \<Rightarrow> Inl TypeError)"
| "cell_setitem s c k v = Inl TypeError"

text \<open>Line 60 on a document with shared objects.\<close>

definition set_annotation_in_place :: "'a shared_doc \<Rightarrow> string \<Rightarrow> error + 'a shared_doc" where
  "set_annotation_in_place d k =
     (case cell_subscript (doc_store d) (doc_root d) ''metadata'' of
        Inl e \<Rightarrow> Inl e
      | Inr md \<Rightarrow>
          (case cell_subscript (doc_store d) md ''annotations'' of
             Inl e \<Rightarrow> Inl e
           | Inr an \<Rightarrow>
               (case cell_setitem (doc_store d) an k (CStr ''*'') of
                  Inl e \<Rightarrow> Inl e
                | Inr s' \<Rightarrow> Inr (d\<lparr>doc_store := s'\<rparr>))))"

subsection \<open>Serialisation\<close>

text \<open>
  \<^verbatim>\<open>yaml.dump(app, default_flow_style=False, explicit_start=True)\<close> leaves
  \<^verbatim>\<open>sort_keys\<close> at its default, true: the representer of PyYAML sorts the items of every
  dict before it emits them, and keeps the insertion order only when the keys cannot be
  compared with each other (a \<^verbatim>\<open>TypeError\<close> that it swallows). Strings compare with
  strings in the order of their characters, integers and booleans with each other by
  value, \<^verbatim>\<open>None\<close> with nothing.
\<close>

fun is_str_key :: "key \<Rightarrow> bool" where
  "is_str_key (KStr s) = True"
| "is_str_key k = False"

fun is_int_key :: "key \<Rightarrow> bool" where
  "is_int_key (KInt i) = True"
| "is_int_key (KBool b) = True"
| "is_int_key k = False"

fun key_str :: "key \<Rightarrow> string" where
  "key_str (KStr s) = s"
| "key_str k = []"

fun key_int :: "key \<Rightarrow> int" where
  "key_int (KInt i) = i"
| "key_int (KBool b) = (if b then 1 else 0)"
| "key_int k = 0"

definition sorted_items :: "(key \<times> 'v) list \<Rightarrow> (key \<times> 'v) list" where
  "sorted_items items =
     (if list_all (\<lambda>kv. is_str_key (fst kv)) items
      then sort_key (\<lambda>kv. key_str (fst kv)) items
      else if list_all (\<lambda>kv. is_int_key (fst kv)) items
      then sort_key (\<lambda>kv. key_int (fst kv)) items
      else items)"

text \<open>The tree of nodes the representer hands to the emitter, items in emission order.\<close>

fun represent :: "pyval \<Rightarrow> pyval" where
  "represent (VList xs) = VList (map represent xs)"
| "represent (VDict items) = VDict (sorted_items (map (\<lambda>(k, v). (k, represent v)) items))"
| "represent v = v"

text \<open>
  What the script takes from Python and PyYAML beyond that, over a type \<open>'t\<close> of texts
  (bytes and strings alike): decoding bytes, parsing a text, and emitting the text of a
  tree of nodes in block style with a document start marker.
\<close>

record 't pylib =
  bytes_decode :: "'t \<Rightarrow> error + 't"
  yaml_safe_load :: "'t \<Rightarrow> error + pyval"
  yaml_emit :: "pyval \<Rightarrow> 't"

definition yaml_dump :: "'t pylib \<Rightarrow> pyval \<Rightarrow> 't" where
  "yaml_dump lib app = yaml_emit lib (represent app)"

subsection \<open>The GitHub client\<close>

text \<open>
  The objects of PyGithub the script reads: a repository with its default branch, and the
  result of \<^verbatim>\<open>get_contents\<close>, which is one \<^verbatim>\<open>ContentFile\<close> for a file and a list of
  them for a directory. The property \<^verbatim>\<open>decoded_content\<close> can raise.
\<close>

record repository =
  full_name :: string
  default_branch :: string

record 't content_file =
  cf_name :: string
  cf_path :: string
  cf_sha :: string
  cf_decoded_content :: "error + 't"

datatype 't contents = File "'t content_file" | Dir "'t content_file list"

text \<open>
  The operations of the client the script calls. Each takes the remote state and returns
  a result or an exception together with the new remote state; nothing is assumed about
  them.
\<close>

record ('w, 't) github =
  gh_get_repo :: "string \<Rightarrow> string \<Rightarrow> 'w \<Rightarrow> (error + repository) \<times> 'w"
  gh_get_branch :: "repository \<Rightarrow> string \<Rightarrow> 'w \<Rightarrow> (error + string) \<times> 'w"
  gh_create_git_ref :: "repository \<Rightarrow> string \<Rightarrow> string \<Rightarrow> 'w \<Rightarrow> (error + unit) \<times> 'w"
  gh_get_contents ::
    "repository \<Rightarrow> string \<Rightarrow> string option \<Rightarrow> 'w \<Rightarrow> (error + 't contents) \<times> 'w"
  gh_update_file ::
    "repository \<Rightarrow> string \<Rightarrow> string \<Rightarrow> 't \<Rightarrow> string \<Rightarrow> string \<Rightarrow> 'w \<Rightarrow> (error + unit) \<times> 'w"
  gh_create_pull :: "repository \<Rightarrow> string \<Rightarrow> string \<Rightarrow> string \<Rightarrow> 'w \<Rightarrow> (error + unit) \<times> 'w"

text \<open>
  A call as the trace records it: \<open>GetRepo token name\<close>, \<open>GetBranch name\<close>,
  \<open>CreateGitRef ref sha\<close>, \<open>GetContents path ref\<close>,
  \<open>UpdateFile path message content sha branch\<close>, \<open>CreatePull base head title\<close>.
\<close>

datatype 't call =
    GetRepo string string
  | GetBranch string
  | CreateGitRef string string
  | GetContents string "string option"
  | UpdateFile string string 't string string
  | CreatePull string string string

record ('w, 't) state =
  world :: 'w
  trace :: "'t call list"

text \<open>One call to the client: the remote state moves on and the call joins the trace.\<close>

definition perform ::
  "'t call \<Rightarrow> ('w \<Rightarrow> (error + 'a) \<times> 'w) \<Rightarrow> ('w, 't) state \<Rightarrow> (error + 'a) \<times> ('w, 't) state" where
  "perform c f st =
     (case f (world st) of (r, w') \<Rightarrow> (r, \<lparr>world = w', trace = trace st @ [c]\<rparr>))"

text \<open>A step that touches nothing remote.\<close>

definition pure_step :: "error + 'a \<Rightarrow> 's \<Rightarrow> (error + 'a) \<times> 's" where
  "pure_step r st = (r, st)"

text \<open>Sequencing: an exception of the first step ends the run, the second step never starts.\<close>

definition and_then ::
  "('s \<Rightarrow> (error + 'a) \<times> 's) \<Rightarrow> ('a \<Rightarrow> 's \<Rightarrow> (error + 'b) \<times> 's) \<Rightarrow> 's \<Rightarrow> (error + 'b) \<times> 's" where
  "and_then m f st = (case m st of (Inl e, st') \<Rightarrow> (Inl e, st') | (Inr x, st') \<Rightarrow> f x st')"

subsection \<open>The functions of the script\<close>

text \<open>
  \<^verbatim>\<open>update_repo_file\<close>, \<^verbatim>\<open>create_branch\<close>, \<^verbatim>\<open>create_pr\<close> and \<^verbatim>\<open>get_repo\<close> wrap their
  calls in \<^verbatim>\<open>try ... except GithubException\<close>, log the exception and raise it again:
  the exception that leaves the function is the one the client raised.
\<close>

definition update_repo_file ::
  "('w, 't) github \<Rightarrow> repository \<Rightarrow> string \<Rightarrow> string \<Rightarrow> 't \<Rightarrow> string \<Rightarrow> string
     \<Rightarrow> ('w, 't) state \<Rightarrow> (error + unit) \<times> ('w, 't) state" where
  "update_repo_file gh repo file_path message content branch sha =
     perform (UpdateFile file_path message content sha branch)
       (gh_update_file gh repo file_path message content sha branch)"

definition create_branch ::
  "('w, 't) github \<Rightarrow> repository \<Rightarrow> string \<Rightarrow> ('w, 't) state \<Rightarrow> (error + unit) \<times> ('w, 't) state" where
  "create_branch gh repo branch =
     and_then
       (perform (GetBranch (default_branch repo)) (gh_get_branch gh repo (default_branch repo)))
       (\<lambda>sha. perform (CreateGitRef (''refs/heads/'' @ branch) sha)
                 (gh_create_git_ref gh repo (''refs/heads/'' @ branch) sha))"

definition create_pr ::
  "('w, 't) github \<Rightarrow> repository \<Rightarrow> string \<Rightarrow> string \<Rightarrow> ('w, 't) state
     \<Rightarrow> (error + unit) \<times> ('w, 't) state" where
  "create_pr gh repo branch title =
     perform (CreatePull (default_branch repo) branch title)
       (gh_create_pull gh repo (default_branch repo) branch title)"

text \<open>
  \<^verbatim>\<open>get_repo\<close>: \<^verbatim>\<open>os.environ['GITHUB_TOKEN']\<close> raises \<^verbatim>\<open>KeyError\<close> when the variable is
  not set, and the \<^verbatim>\<open>except\<close> clause does not catch it. Building the \<^verbatim>\<open>Auth.Token\<close> and
  the \<^verbatim>\<open>Github\<close> object and resolving the name are one call to the client.
\<close>

definition get_repo ::
  "('w, 't) github \<Rightarrow> (string \<rightharpoonup> string) \<Rightarrow> string \<Rightarrow> ('w, 't) state
     \<Rightarrow> (error + repository) \<times> ('w, 't) state" where
  "get_repo gh environ name =
     (case environ ''GITHUB_TOKEN'' of
        None \<Rightarrow> pure_step (Inl (KeyError ''GITHUB_TOKEN''))
      | Some github_token \<Rightarrow> perform (GetRepo github_token name) (gh_get_repo gh github_token name))"

text \<open>
  Lines 57 to 64 of \<^verbatim>\<open>modify_application\<close>, from the fetched contents to the new text:
  \<^verbatim>\<open>contents.decoded_content\<close> (a directory listing is a list and has no such attribute),
  \<^verbatim>\<open>.decode()\<close>, \<^verbatim>\<open>yaml.safe_load\<close>, the change of the annotations, \<^verbatim>\<open>yaml.dump\<close>.
\<close>

definition decoded_content :: "'t contents \<Rightarrow> error + 't" where
  "decoded_content contents =
     (case contents of
        Dir entries \<Rightarrow> Inl (AttributeError ''decoded_content'')
      | File cf \<Rightarrow> cf_decoded_content cf)"

definition load_text :: "'t pylib \<Rightarrow> 't \<Rightarrow> error + pyval" where
  "load_text lib raw =
     (case bytes_decode lib raw of
        Inl e \<Rightarrow> Inl e
      | Inr text \<Rightarrow> yaml_safe_load lib text)"

definition rewrite_text :: "'t pylib \<Rightarrow> 't \<Rightarrow> string option \<Rightarrow> error + 't" where
  "rewrite_text lib raw annotation_key =
     (case load_text lib raw of
        Inl e \<Rightarrow> Inl e
      | Inr app \<Rightarrow>
          (case mutate_annotations app annotation_key of
             Inl e \<Rightarrow> Inl e
           | Inr app' \<Rightarrow> Inr (yaml_dump lib app')))"

definition rewrite_manifest :: "'t pylib \<Rightarrow> 't contents \<Rightarrow> string option \<Rightarrow> error + 't" where
  "rewrite_manifest lib contents annotation_key =
     (case decoded_content contents of
        Inl e \<Rightarrow> Inl e
      | Inr raw \<Rightarrow> rewrite_text lib raw annotation_key)"

text \<open>
  \<^verbatim>\<open>modify_application(repo, env, service, branch, annotation_key=None)\<close>. The read is
  not inside a \<^verbatim>\<open>try\<close>. After the new text is built, \<^verbatim>\<open>contents\<close> is a single file, the
  only case in which \<^verbatim>\<open>contents.path\<close> and \<^verbatim>\<open>contents.sha\<close> are reached.
\<close>

definition application_path :: "string option \<Rightarrow> string \<Rightarrow> string" where
  "application_path env service = ''envs/'' @ fmt env @ ''/'' @ service @ ''/application.yaml''"

definition commit_message :: "string option \<Rightarrow> string \<Rightarrow> string" where
  "commit_message env service = ''Modify '' @ service @ '' in '' @ fmt env @ ''.''"

definition modify_application ::
  "('w, 't) github \<Rightarrow> 't pylib \<Rightarrow> repository \<Rightarrow> string option \<Rightarrow> string \<Rightarrow> string
     \<Rightarrow> string option \<Rightarrow> ('w, 't) state \<Rightarrow> (error + unit) \<times> ('w, 't) state" where
  "modify_application gh lib repo env service branch annotation_key =
     and_then
       (perform (GetContents (application_path env service) (Some (default_branch repo)))
          (gh_get_contents gh repo (application_path env service) (Some (default_branch repo))))
       (\<lambda>contents.
          and_then (pure_step (rewrite_manifest lib contents annotation_key))
            (\<lambda>app_yaml.
               (case contents of
                  Dir entries \<Rightarrow> pure_step (Inl (AttributeError ''path''))
                | File cf \<Rightarrow>
                    update_repo_file gh repo (cf_path cf) (commit_message env service)
                      app_yaml branch (cf_sha cf))))"

text \<open>
  \<^verbatim>\<open>handle_services\<close>: the loop over the listing. For \<^verbatim>\<open>resume\<close> the key is computed
  and the call leaves it out, so that \<^verbatim>\<open>annotation_key\<close> takes its default \<^verbatim>\<open>None\<close>. Any
  other action passes through the loop without a call.
\<close>

definition ignore_tags_key :: "string \<Rightarrow> string" where
  "ignore_tags_key name = ''argocd-image-updater.argoproj.io/'' @ name @ ''.ignore-tags''"

fun handle_services ::
  "('w, 't) github \<Rightarrow> 't pylib \<Rightarrow> repository \<Rightarrow> string option \<Rightarrow> 't content_file list \<Rightarrow> string
     \<Rightarrow> string option \<Rightarrow> ('w, 't) state \<Rightarrow> (error + unit) \<times> ('w, 't) state" where
  "handle_services gh lib repo env [] branch action = pure_step (Inr ())"
| "handle_services gh lib repo env (svc # services) branch action =
     and_then
       (if action = Some ''pause''
        then modify_application gh lib repo env (cf_name svc) branch
               (Some (ignore_tags_key (cf_name svc)))
        else if action = Some ''resume''
        then modify_application gh lib repo env (cf_name svc) branch None
        else pure_step (Inr ()))
       (\<lambda>u. handle_services gh lib repo env services branch action)"

subsection \<open>The entry point\<close>

text \<open>
  What \<^verbatim>\<open>options()\<close> returns: the namespace \<^verbatim>\<open>argparse\<close> fills, with one attribute for
  each of the three flags, \<^verbatim>\<open>None\<close> for a flag that was not given. Reading any other
  attribute raises \<^verbatim>\<open>AttributeError\<close>.
\<close>

record namespace =
  source_env :: "string option"
  target_env :: "string option"
  action :: "string option"

definition ns_getattr :: "namespace \<Rightarrow> string \<Rightarrow> error + string option" where
  "ns_getattr args name =
     (if name = ''source_env'' then Inr (source_env args)
      else if name = ''target_env'' then Inr (target_env args)
      else if name = ''action'' then Inr (action args)
      else Inl (AttributeError name))"

text \<open>
  Line 91, \<^verbatim>\<open>f'{args.action}-{args.target-env}-{today}'\<close>. The second field is the
  subtraction \<^verbatim>\<open>args.target - env\<close>: its left operand is the attribute \<^verbatim>\<open>target\<close> of the
  namespace, its right operand the name \<^verbatim>\<open>env\<close>, which the module does not define. The
  fields are evaluated from left to right, and no path through the expression yields a
  string.
\<close>

definition branch_name_expr :: "namespace \<Rightarrow> string \<Rightarrow> error + string" where
  "branch_name_expr args today =
     (case ns_getattr args ''action'' of
        Inl e \<Rightarrow> Inl e
      | Inr a \<Rightarrow>
          (case ns_getattr args ''target'' of
             Inl e \<Rightarrow> Inl e
           | Inr t \<Rightarrow> Inl (NameError ''env'')))"

text \<open>\<^verbatim>\<open>str.capitalize()\<close> on ASCII: the first character in upper case, the rest in lower case.\<close>

definition upper_char :: "char \<Rightarrow> char" where
  "upper_char c =
     (if CHR ''a'' \<le> c \<and> c \<le> CHR ''z'' then char_of (of_char c - (32::nat)) else c)"

definition lower_char :: "char \<Rightarrow> char" where
  "lower_char c =
     (if CHR ''A'' \<le> c \<and> c \<le> CHR ''Z'' then char_of (of_char c + (32::nat)) else c)"

fun capitalize :: "string \<Rightarrow> string" where
  "capitalize [] = []"
| "capitalize (c # cs) = upper_char c # map lower_char cs"

text \<open>
  Lines 94 to 102 of \<^verbatim>\<open>main\<close>, for a branch name already computed: the branch is
  created, then the action is dispatched. Iterating over a single \<^verbatim>\<open>ContentFile\<close> (the
  path of the environment is a file) raises \<^verbatim>\<open>TypeError\<close>. The listing is read without
  a \<^verbatim>\<open>ref\<close>.
\<close>

definition pr_title :: "namespace \<Rightarrow> error + string" where
  "pr_title args =
     (case action args of
        None \<Rightarrow> Inl (AttributeError ''capitalize'')
      | Some a \<Rightarrow> Inr (capitalize a @ '' the '' @ fmt (target_env args) @ '' environment.''))"

definition run_action ::
  "('w, 't) github \<Rightarrow> 't pylib \<Rightarrow> repository \<Rightarrow> namespace \<Rightarrow> string \<Rightarrow> ('w, 't) state
     \<Rightarrow> (error + unit) \<times> ('w, 't) state" where
  "run_action gh lib repository args branch_name =
     and_then (create_branch gh repository branch_name)
       (\<lambda>u.
          if action args = Some ''pause'' \<or> action args = Some ''resume''
          then
            and_then
              (perform (GetContents (''envs/'' @ fmt (target_env args)) None)
                 (gh_get_contents gh repository (''envs/'' @ fmt (target_env args)) None))
              (\<lambda>services.
                 and_then
                   (case services of
                      File cf \<Rightarrow> pure_step (Inl TypeError)
                    | Dir entries \<Rightarrow>
                        handle_services gh lib repository (target_env args) entries branch_name
                          (action args))
                   (\<lambda>u. and_then (pure_step (pr_title args))
                          (\<lambda>title. create_pr gh repository branch_name title)))
          else if action args = Some ''push''
          then pure_step (Inr ())
          else pure_step (Inr ()))"

text \<open>
  \<^verbatim>\<open>main\<close>: the arguments \<open>args\<close> and the formatted date \<open>today\<close> are at hand when the
  repository is resolved; the branch name comes next.
\<close>

definition main ::
  "('w, 't) github \<Rightarrow> 't pylib \<Rightarrow> (string \<rightharpoonup> string) \<Rightarrow> namespace \<Rightarrow> string \<Rightarrow> ('w, 't) state
     \<Rightarrow> (error + unit) \<times> ('w, 't) state" where
  "main gh lib environ args today =
     and_then (get_repo gh environ ''antonputra/k8s'')
       (\<lambda>repository.
          and_then (pure_step (branch_name_expr args today))
            (\<lambda>branch_name. run_action gh lib repository args branch_name))"

subsection \<open>A client and a library to run the script on\<close>

text \<open>
  An in-memory stand-in for the hosted repository, used where the script is run on a
  concrete input: it serves a fixed set of files, and an update of a path listed in
  \<open>stale\<close> is refused with status 409. Every other call succeeds.
\<close>

definition stub_github :: "(string \<times> 't contents) list \<Rightarrow> string list \<Rightarrow> (unit, 't) github" where
  "stub_github files stale =
     \<lparr> gh_get_repo = (\<lambda>token name w. (Inr \<lparr>full_name = name, default_branch = ''main''\<rparr>, w)),
       gh_get_branch = (\<lambda>repo name w. (Inr ''c0ffee'', w)),
       gh_create_git_ref = (\<lambda>repo ref sha w. (Inr (), w)),
       gh_get_contents = (\<lambda>repo path ref w.
          (case map_of files path of None \<Rightarrow> Inl (GithubException 404) | Some c \<Rightarrow> Inr c, w)),
       gh_update_file = (\<lambda>repo path message content sha branch w.
          (if path \<in> set stale then Inl (GithubException 409) else Inr (), w)),
       gh_create_pull = (\<lambda>repo base head title w. (Inr (), w)) \<rparr>"

text \<open>A library whose texts are the trees themselves: parsing and emitting change nothing.\<close>

definition tree_lib :: "pyval pylib" where
  "tree_lib = \<lparr> bytes_decode = Inr, yaml_safe_load = Inr, yaml_emit = (\<lambda>v. v) \<rparr>"

definition application :: "(key \<times> pyval) list \<Rightarrow> pyval" where
  "application annotations =
     VDict [(KStr ''kind'', VStr ''Application''),
            (KStr ''metadata'', VDict [(KStr ''name'', VStr ''svc''),
                                       (KStr ''annotations'', VDict annotations)])]"

definition manifest_file :: "string \<Rightarrow> pyval \<Rightarrow> pyval content_file" where
  "manifest_file path doc =
     \<lparr> cf_name = ''application.yaml'', cf_path = path, cf_sha = ''abc'',
       cf_decoded_content = Inr doc \<rparr>"

definition manifest :: "string \<Rightarrow> pyval \<Rightarrow> pyval contents" where
  "manifest path doc = File (manifest_file path doc)"

definition entry :: "string \<Rightarrow> pyval content_file" where
  "entry name = \<lparr> cf_name = name, cf_path = ''envs/staging/'' @ name, cf_sha = ''d1r'',
                  cf_decoded_content = Inl (AttributeError ''content'') \<rparr>"

text \<open>
  An environment \<^verbatim>\<open>staging\<close> with the services \<^verbatim>\<open>a\<close>, paused and carrying one more
  annotation, and \<^verbatim>\<open>b\<close>, with no annotation.
\<close>

definition staging :: "(string \<times> pyval contents) list" where
  "staging =
     [(''envs/staging'', Dir [entry ''a'', entry ''b'']),
      (''envs/staging/a/application.yaml'',
       manifest ''envs/staging/a/application.yaml''
         (application [(KStr (ignore_tags_key ''a''), VStr ''*''), (KStr ''team'', VStr ''x'')])),
      (''envs/staging/b/application.yaml'',
       manifest ''envs/staging/b/application.yaml'' (application []))]"

definition start :: "(unit, pyval) state" where
  "start = \<lparr>world = (), trace = []\<rparr>"

definition repo0 :: repository where
  "repo0 = \<lparr>full_name = ''antonputra/k8s'', default_branch = ''main''\<rparr>"

definition cli :: "string \<Rightarrow> namespace" where
  "cli a = \<lparr>source_env = None, target_env = Some ''staging'', action = Some a\<rparr>"

text \<open>
  The states of a run of \<^verbatim>\<open>pause\<close> on \<^verbatim>\<open>staging\<close> in which the update of \<^verbatim>\<open>b\<close> is
  refused: after the branch was made, and when the run stops.
\<close>

definition branch_made :: "(unit, pyval) state" where
  "branch_made =
     \<lparr>world = (),
      trace = [GetBranch ''main'',
               CreateGitRef ''refs/heads/pause-staging-2024-01-01'' ''c0ffee'']\<rparr>"

definition stopped_at_b :: "(unit, pyval) state" where
  "stopped_at_b =
     \<lparr>world = (),
      trace =
        [GetBranch ''main'',
         CreateGitRef ''refs/heads/pause-staging-2024-01-01'' ''c0ffee'',
         GetContents ''envs/staging'' None,
         GetContents ''envs/staging/a/application.yaml'' (Some ''main''),
         UpdateFile ''envs/staging/a/application.yaml'' ''Modify a in staging.''
           (VDict
             [(KStr ''kind'', VStr ''Application''),
              (KStr ''metadata'',
               VDict
                [(KStr ''annotations'',
                  VDict
                   [(KStr ''argocd-image-updater.argoproj.io/a.ignore-tags'', VStr ''*''),
                    (KStr ''team'', VStr ''x'')]),
                 (KStr ''name'', VStr ''svc'')])])
           ''abc'' ''pause-staging-2024-01-01'',
         GetContents ''envs/staging/b/application.yaml'' (Some ''main''),
         UpdateFile ''envs/staging/b/application.yaml'' ''Modify b in staging.''
           (VDict
             [(KStr ''kind'', VStr ''Application''),
              (KStr ''metadata'',
               VDict
                [(KStr ''annotations'',
                  VDict
                   [(KStr ''argocd-image-updater.argoproj.io/b.ignore-tags'', VStr ''*'')]),
                 (KStr ''name'', VStr ''svc'')])])
           ''abc'' ''pause-staging-2024-01-01'']\<rparr>"

text \<open>The state of that run after the service \<^verbatim>\<open>a\<close>.\<close>

definition after_a :: "(unit, pyval) state" where
  "after_a = \<lparr>world = (), trace = take 5 (trace stopped_at_b)\<rparr>"


definition team_app :: pyval where
  "team_app = application [(KStr ''team'', VStr ''x'')]"


definition null_key_app :: pyval where
  "null_key_app = application [(KNone, VStr ''x'')]"

definition null_annotations_app :: pyval where
  "null_annotations_app =
     VDict [(KStr ''kind'', VStr ''Application''),
            (KStr ''metadata'', VDict [(KStr ''name'', VStr ''svc''),
                                       (KStr ''annotations'', VNone)])]"

definition bare_app :: pyval where
  "bare_app = VDict [(KStr ''kind'', VStr ''Application'')]"

text \<open>
  Two manifests with an anchor, each as it is parsed and as line 60 leaves it for a service.
  In the first \<^verbatim>\<open>spec.template.annotations\<close> is an alias of \<^verbatim>\<open>metadata.annotations\<close>, and
  the service is \<^verbatim>\<open>a\<close>; in the second \<^verbatim>\<open>labels\<close> is an alias of \<^verbatim>\<open>metadata.labels\<close>,
  the annotations are shared with nothing, and the service is \<^verbatim>\<open>c\<close>.
\<close>

definition aliased_app :: "nat shared_doc" where
  "aliased_app =
     \<lparr> doc_root = Ref 0,
       doc_store =
         [0 \<mapsto> ODict [(KStr ''kind'', CStr ''Application''), (KStr ''metadata'', Ref 1),
                      (KStr ''spec'', Ref 3)],
          1 \<mapsto> ODict [(KStr ''name'', CStr ''svc''), (KStr ''annotations'', Ref 2)],
          2 \<mapsto> ODict [(KStr ''team'', CStr ''x'')],
          3 \<mapsto> ODict [(KStr ''template'', Ref 4)],
          4 \<mapsto> ODict [(KStr ''annotations'', Ref 2)]] \<rparr>"

definition aliased_app_paused :: "nat shared_doc" where
  "aliased_app_paused =
     \<lparr> doc_root = Ref 0,
       doc_store =
         [0 \<mapsto> ODict [(KStr ''kind'', CStr ''Application''), (KStr ''metadata'', Ref 1),
                      (KStr ''spec'', Ref 3)],
          1 \<mapsto> ODict [(KStr ''name'', CStr ''svc''), (KStr ''annotations'', Ref 2)],
          2 \<mapsto> ODict [(KStr ''team'', CStr ''x''),
                      (KStr ''argocd-image-updater.argoproj.io/a.ignore-tags'', CStr ''*'')],
          3 \<mapsto> ODict [(KStr ''template'', Ref 4)],
          4 \<mapsto> ODict [(KStr ''annotations'', Ref 2)]] \<rparr>"

definition labelled_app :: "nat shared_doc" where
  "labelled_app =
     \<lparr> doc_root = Ref 0,
       doc_store =
         [0 \<mapsto> ODict [(KStr ''metadata'', Ref 1), (KStr ''labels'', Ref 3)],
          1 \<mapsto> ODict [(KStr ''annotations'', Ref 2), (KStr ''labels'', Ref 3)],
          2 \<mapsto> ODict [(KStr ''team'', CStr ''x'')],
          3 \<mapsto> ODict [(KStr ''app'', CStr ''y'')]] \<rparr>"

definition labelled_app_paused :: "nat shared_doc" where
  "labelled_app_paused =
     \<lparr> doc_root = Ref 0,
       doc_store =
         [0 \<mapsto> ODict [(KStr ''metadata'', Ref 1), (KStr ''labels'', Ref 3)],
          1 \<mapsto> ODict [(KStr ''annotations'', Ref 2), (KStr ''labels'', Ref 3)],
          2 \<mapsto> ODict [(KStr ''team'', CStr ''x''),
                      (KStr ''argocd-image-updater.argoproj.io/c.ignore-tags'', CStr ''*'')],
          3 \<mapsto> ODict [(KStr ''app'', CStr ''y'')]] \<rparr>"

subsection \<open>Notions the properties are stated with\<close>

text \<open>
  In the trace: a pull request; an update committed to \<open>branch\<close> with \<open>message\<close>; the read
  of the manifest of a service.
\<close>

fun is_pull :: "'t call \<Rightarrow> bool" where
  "is_pull (CreatePull base head title) = True"
| "is_pull c = False"

fun is_update_on :: "string \<Rightarrow> string \<Rightarrow> 't call \<Rightarrow> bool" where
  "is_update_on branch message (UpdateFile p m c sha b) = (b = branch \<and> m = message)"
| "is_update_on branch message c = False"

definition service_read :: "repository \<Rightarrow> string option \<Rightarrow> 't content_file \<Rightarrow> 't call" where
  "service_read repo env svc =
     GetContents (application_path env (cf_name svc)) (Some (default_branch repo))"

text \<open>
  A stretch of the trace in which each service of a list was processed once, in order: one
  read of its manifest followed by one update with its commit message, and nothing else.
\<close>

fun processed ::
  "repository \<Rightarrow> string option \<Rightarrow> string \<Rightarrow> 't content_file list \<Rightarrow> 't call list \<Rightarrow> bool" where
  "processed repo env branch [] tr = (tr = [])"
| "processed repo env branch (svc # svcs) tr =
     (case tr of
        r # u # rest \<Rightarrow>
          r = service_read repo env svc
          \<and> is_update_on branch (commit_message env (cf_name svc)) u
          \<and> processed repo env branch svcs rest
      | _ \<Rightarrow> False)"

text \<open>
  A stretch of the trace in which one service was started and not more: the read of its
  manifest, followed at most by one update.
\<close>

definition attempted ::
  "repository \<Rightarrow> string option \<Rightarrow> string \<Rightarrow> 't content_file \<Rightarrow> 't call list \<Rightarrow> bool" where
  "attempted repo env branch svc tr =
     (case tr of
        [r] \<Rightarrow> r = service_read repo env svc
      | [r, u] \<Rightarrow>
          r = service_read repo env svc \<and> is_update_on branch (commit_message env (cf_name svc)) u
      | _ \<Rightarrow> False)"

text \<open>
  The value of \<^verbatim>\<open>annotation_key\<close> with which \<^verbatim>\<open>handle_services\<close> calls
  \<^verbatim>\<open>modify_application\<close> under the actions \<^verbatim>\<open>pause\<close> and \<^verbatim>\<open>resume\<close>: the key of the
  service for \<^verbatim>\<open>pause\<close>, the default \<^verbatim>\<open>None\<close> for \<^verbatim>\<open>resume\<close>.
\<close>

definition service_key :: "string option \<Rightarrow> string \<Rightarrow> string option" where
  "service_key act name = (if act = Some ''pause'' then Some (ignore_tags_key name) else None)"

text \<open>
  The client refuses a service: in the remote state \<open>w\<close> it raises \<open>e\<close> when it is asked for
  the manifest, or it serves a file and raises \<open>e\<close> when it is asked to update that file with
  the text rewritten for \<open>annotation_key\<close>. The remote state it leaves is \<open>w'\<close>.
\<close>

definition client_refuses ::
  "('w, 't) github \<Rightarrow> 't pylib \<Rightarrow> repository \<Rightarrow> string option \<Rightarrow> string \<Rightarrow> string
     \<Rightarrow> string option \<Rightarrow> 'w \<Rightarrow> error \<Rightarrow> 'w \<Rightarrow> bool" where
  "client_refuses gh lib repo env service branch annotation_key w e w' =
     (case gh_get_contents gh repo (application_path env service) (Some (default_branch repo)) w of
        (Inl e1, w1) \<Rightarrow> e1 = e \<and> w1 = w'
      | (Inr (Dir entries), w1) \<Rightarrow> False
      | (Inr (File cf), w1) \<Rightarrow>
          (case rewrite_manifest lib (File cf) annotation_key of
             Inl e1 \<Rightarrow> False
           | Inr text \<Rightarrow>
               gh_update_file gh repo (cf_path cf) (commit_message env service) text (cf_sha cf)
                 branch w1 = (Inl e, w')))"

text \<open>
  The exceptions that are instances of \<^verbatim>\<open>LookupError\<close>: of those above, \<^verbatim>\<open>KeyError\<close>
  alone.
\<close>

fun is_lookup_error :: "error \<Rightarrow> bool" where
  "is_lookup_error (KeyError k) = True"
| "is_lookup_error e = False"

text \<open>A Python dict has each key once: the documents in which every dict does.\<close>

fun wf_doc :: "pyval \<Rightarrow> bool" where
  "wf_doc (VList xs) = list_all wf_doc xs"
| "wf_doc (VDict items) = (distinct (map fst items) \<and> list_all (\<lambda>kv. wf_doc (snd kv)) items)"
| "wf_doc v = True"

text \<open>The value found in a document along a path of dict keys and list positions.\<close>

datatype step = Field key | Item nat

fun descend :: "pyval \<Rightarrow> step \<Rightarrow> pyval option" where
  "descend (VDict items) (Field k) = map_of items k"
| "descend (VList xs) (Item i) = (if i < length xs then Some (xs ! i) else None)"
| "descend v s = None"

fun lookup_path :: "pyval \<Rightarrow> step list \<Rightarrow> pyval option" where
  "lookup_path v [] = Some v"
| "lookup_path v (s # p) = (case descend v s of None \<Rightarrow> None | Some w \<Rightarrow> lookup_path w p)"

text \<open>The keys of \<^verbatim>\<open>metadata.annotations\<close>, in the order the dict holds them.\<close>

definition annotation_keys :: "pyval \<Rightarrow> key list option" where
  "annotation_keys d =
     (case lookup_path d [Field (KStr ''metadata''), Field (KStr ''annotations'')] of
        Some (VDict an) \<Rightarrow> Some (map fst an)
      | _ \<Rightarrow> None)"

text \<open>The same along references, in a document with shared objects.\<close>

fun cell_descend :: "('a \<rightharpoonup> 'a obj) \<Rightarrow> 'a cell \<Rightarrow> step \<Rightarrow> 'a cell option" where
  "cell_descend s (Ref a) (Field k) =
     (case s a of Some (ODict items) \<Rightarrow> map_of items k | _ \<Rightarrow> None)"
| "cell_descend s (Ref a) (Item i) =
     (case s a of Some (OList xs) \<Rightarrow> (if i < length xs then Some (xs ! i) else None) | _ \<Rightarrow> None)"
| "cell_descend s v x = None"

fun cell_lookup :: "('a \<rightharpoonup> 'a obj) \<Rightarrow> 'a cell \<Rightarrow> step list \<Rightarrow> 'a cell option" where
  "cell_lookup s v [] = Some v"
| "cell_lookup s v (x # p) =
     (case cell_descend s v x of None \<Rightarrow> None | Some w \<Rightarrow> cell_lookup s w p)"

text \<open>The path \<^verbatim>\<open>metadata.annotations\<close>.\<close>

definition annotations_path :: "step list" where
  "annotations_path = [Field (KStr ''metadata''), Field (KStr ''annotations'')]"

text \<open>
  A tree as a document with shared objects, in which nothing is shared: each list and each
  dict of the tree is an object of its own, and its address is the path that leads to it.
\<close>

fun cell_of :: "step list \<Rightarrow> pyval \<Rightarrow> (step list) cell" where
  "cell_of p VNone = CNone"
| "cell_of p (VBool b) = CBool b"
| "cell_of p (VInt i) = CInt i"
| "cell_of p (VStr s) = CStr s"
| "cell_of p (VList xs) = Ref p"
| "cell_of p (VDict items) = Ref p"

definition tree_store :: "pyval \<Rightarrow> step list \<rightharpoonup> (step list) obj" where
  "tree_store t p =
     (case lookup_path t p of
        Some (VDict items) \<Rightarrow> Some (ODict (map (\<lambda>(k, v). (k, cell_of (p @ [Field k]) v)) items))
      | Some (VList xs) \<Rightarrow>
          Some (OList (map (\<lambda>i. cell_of (p @ [Item i]) (xs ! i)) [0..<length xs]))
      | _ \<Rightarrow> None)"

definition shared_of :: "pyval \<Rightarrow> (step list) shared_doc" where
  "shared_of t = \<lparr>doc_root = cell_of [] t, doc_store = tree_store t\<rparr>"

section \<open>Properties\<close>

subsection \<open>Steps and sequencing\<close>

lemma perform_eq:
  "perform c f st = (fst (f (world st)), \<lparr>world = snd (f (world st)), trace = trace st @ [c]\<rparr>)"
  by (simp add: perform_def split: prod.split)

lemma and_then_Inl: "m st = (Inl e, st') \<Longrightarrow> and_then m f st = (Inl e, st')"
  by (simp add: and_then_def)

lemma and_then_Inr: "m st = (Inr x, st') \<Longrightarrow> and_then m f st = f x st'"
  by (simp add: and_then_def)

lemma and_then_assoc:
  "and_then (and_then m f) g = and_then m (\<lambda>x. and_then (f x) g)"
  by (rule ext) (simp add: and_then_def split: prod.splits sum.splits)

lemma and_then_pure: "and_then (pure_step (Inr x)) f = f x"
  by (rule ext) (simp add: and_then_def pure_step_def)

lemmas run_defs = run_action_def create_branch_def create_pr_def perform_eq and_then_def
  pure_step_def stub_github_def start_def modify_application_def rewrite_manifest_def
  rewrite_text_def load_text_def decoded_content_def tree_lib_def staging_def manifest_def manifest_file_def
  application_def
  entry_def application_path_def commit_message_def update_repo_file_def
  mutate_annotations_def set_annotation_def pop_annotation_def with_annotations_def
  yaml_dump_def sorted_items_def ignore_tags_key_def repo0_def pr_title_def upper_char_def
  lower_char_def cli_def

subsection \<open>Resolving the repository\<close>

text \<open>
  C9. When the environment has no variable \<^verbatim>\<open>GITHUB_TOKEN\<close>, \<^verbatim>\<open>get_repo\<close> raises
  \<^verbatim>\<open>KeyError\<close> and so does \<^verbatim>\<open>main\<close>; the state they return is the state they were given:
  no call reached the client and the remote state is the same.
\<close>

theorem get_repo_without_token:
  assumes "environ ''GITHUB_TOKEN'' = None"
  shows "get_repo gh environ name st = (Inl (KeyError ''GITHUB_TOKEN''), st)
       \<and> main gh lib environ args today st = (Inl (KeyError ''GITHUB_TOKEN''), st)"
  using assms by (simp add: get_repo_def main_def pure_step_def and_then_def)

theorem get_repo_without_token_witness:
  "get_repo (stub_github staging []) Map.empty ''antonputra/k8s'' start
     = (Inl (KeyError ''GITHUB_TOKEN''), start)
   \<and> main (stub_github staging []) tree_lib Map.empty (cli ''pause'') ''2024-01-01'' start
     = (Inl (KeyError ''GITHUB_TOKEN''), start)"
  using get_repo_without_token [of Map.empty "stub_github staging []" "''antonputra/k8s''" start
      tree_lib "cli ''pause''" "''2024-01-01''"]
  by simp

subsection \<open>The branch name\<close>

text \<open>
  Once the repository is resolved, \<^verbatim>\<open>main\<close> ends with \<^verbatim>\<open>AttributeError\<close>, whatever the
  arguments and the date: the only call made is the one that resolved the repository.
\<close>

lemma main_stops_at_branch_name:
  assumes "environ ''GITHUB_TOKEN'' = Some token"
    and "gh_get_repo gh token ''antonputra/k8s'' (world st) = (Inr repo, w')"
  shows "main gh lib environ args today st
       = (Inl (AttributeError ''target''),
          \<lparr>world = w', trace = trace st @ [GetRepo token ''antonputra/k8s'']\<rparr>)"
  using assms
  by (simp add: main_def get_repo_def perform_eq and_then_def pure_step_def branch_name_expr_def
      ns_getattr_def)

text \<open>
  C2. The run \<^verbatim>\<open>--action pause --target-env staging\<close> on 2024-01-01, with a token and a
  repository that resolves: \<^verbatim>\<open>main\<close> raises \<^verbatim>\<open>AttributeError\<close> while it builds the branch
  name, and no branch is created.
\<close>

theorem main_pause_staging:
  "main (stub_github staging []) tree_lib [''GITHUB_TOKEN'' \<mapsto> ''t''] (cli ''pause'')
     ''2024-01-01'' start
   = (Inl (AttributeError ''target''), \<lparr>world = (), trace = [GetRepo ''t'' ''antonputra/k8s'']\<rparr>)"
  by (simp add: main_def get_repo_def perform_eq and_then_def pure_step_def branch_name_expr_def
      ns_getattr_def stub_github_def start_def cli_def)

text \<open>
  C8. The run \<^verbatim>\<open>--action push --target-env staging\<close> on 2024-01-01: \<^verbatim>\<open>main\<close> raises the
  same \<^verbatim>\<open>AttributeError\<close> before the branch is created.
\<close>

theorem main_push_staging:
  "main (stub_github staging []) tree_lib [''GITHUB_TOKEN'' \<mapsto> ''t''] (cli ''push'')
     ''2024-01-01'' start
   = (Inl (AttributeError ''target''), \<lparr>world = (), trace = [GetRepo ''t'' ''antonputra/k8s'']\<rparr>)"
  by (simp add: main_def get_repo_def perform_eq and_then_def pure_step_def branch_name_expr_def
      ns_getattr_def stub_github_def start_def cli_def)

subsection \<open>Resume\<close>

text \<open>
  C1. Resuming the service \<^verbatim>\<open>a\<close> of \<^verbatim>\<open>staging\<close>, whose manifest carries the annotation
  \<^verbatim>\<open>argocd-image-updater.argoproj.io/a.ignore-tags\<close>: the document written back still has
  it.
\<close>

theorem resume_keeps_ignore_tags:
  "handle_services (stub_github staging []) tree_lib repo0 (Some ''staging'') [entry ''a'']
      ''resume-staging-2024-01-01'' (Some ''resume'') start
   = (Inr (),
      \<lparr>world = (),
       trace =
         [GetContents ''envs/staging/a/application.yaml'' (Some ''main''),
          UpdateFile ''envs/staging/a/application.yaml'' ''Modify a in staging.''
            (VDict
              [(KStr ''kind'', VStr ''Application''),
               (KStr ''metadata'',
                VDict
                 [(KStr ''annotations'',
                   VDict
                    [(KStr ''argocd-image-updater.argoproj.io/a.ignore-tags'', VStr ''*''),
                     (KStr ''team'', VStr ''x'')]),
                  (KStr ''name'', VStr ''svc'')])])
            ''abc'' ''resume-staging-2024-01-01'']\<rparr>)"
  by (simp add: run_defs)

text \<open>With no key given, \<^verbatim>\<open>modify_application\<close> pops \<^verbatim>\<open>None\<close>.\<close>

lemma mutate_annotations_None: "mutate_annotations d None = pop_annotation d None"
  by (simp add: mutate_annotations_def)

text \<open>
  C6. Resuming the service \<^verbatim>\<open>a\<close> on a manifest whose only annotation has the key
  \<^verbatim>\<open>null\<close>, so that the key \<^verbatim>\<open>argocd-image-updater.argoproj.io/a.ignore-tags\<close> is absent:
  the key that is popped is \<^verbatim>\<open>None\<close>, and the document written back has no annotation
  left, where the document as it was would have been written with its annotation.
\<close>

theorem resume_drops_null_annotation:
  "handle_services
      (stub_github [(''envs/staging/a/application.yaml'',
                     manifest ''envs/staging/a/application.yaml'' null_key_app)] [])
      tree_lib repo0 (Some ''staging'') [entry ''a''] ''resume-staging-2024-01-01''
      (Some ''resume'') start
   = (Inr (),
      \<lparr>world = (),
       trace =
         [GetContents ''envs/staging/a/application.yaml'' (Some ''main''),
          UpdateFile ''envs/staging/a/application.yaml'' ''Modify a in staging.''
            (VDict
              [(KStr ''kind'', VStr ''Application''),
               (KStr ''metadata'',
                VDict [(KStr ''annotations'', VDict []), (KStr ''name'', VStr ''svc'')])])
            ''abc'' ''resume-staging-2024-01-01'']\<rparr>)
   \<and> annotation_keys null_key_app = Some [KNone]
   \<and> KStr (ignore_tags_key ''a'') \<notin> set [KNone]
   \<and> represent null_key_app
     = VDict
        [(KStr ''kind'', VStr ''Application''),
         (KStr ''metadata'',
          VDict [(KStr ''annotations'', VDict [(KNone, VStr ''x'')]),
                 (KStr ''name'', VStr ''svc'')])]"
  by (simp add: run_defs null_key_app_def annotation_keys_def)

subsection \<open>Changing the annotations\<close>

lemma subscript_Inr:
  "subscript d name = Inr v \<Longrightarrow> \<exists>items. d = VDict items \<and> map_of items (KStr name) = Some v"
  by (cases d) (auto split: option.splits)

lemma with_annotations_dict:
  assumes "map_of docl (KStr ''metadata'') = Some (VDict md)"
    and "map_of md (KStr ''annotations'') = Some an"
  shows "with_annotations f (VDict docl) =
     (case f an of
        Inl e \<Rightarrow> Inl e
      | Inr an' \<Rightarrow>
          Inr (VDict (AList.update (KStr ''metadata'')
                 (VDict (AList.update (KStr ''annotations'') an' md)) docl)))"
  using assms by (simp add: with_annotations_def split: sum.splits)

lemma with_annotations_same:
  assumes "subscript d ''metadata'' = Inr md"
    and "subscript md ''annotations'' = Inr an"
    and "f an = Inr an"
  shows "with_annotations f d = Inr d"
proof -
  obtain docl where d: "d = VDict docl" and docl: "map_of docl (KStr ''metadata'') = Some md"
    using subscript_Inr [OF assms(1)] by blast
  obtain mdl where md: "md = VDict mdl" and mdl: "map_of mdl (KStr ''annotations'') = Some an"
    using subscript_Inr [OF assms(2)] by blast
  have "AList.update (KStr ''annotations'') an mdl = mdl"
    using mdl by (rule update_triv)
  moreover have "AList.update (KStr ''metadata'') (VDict mdl) docl = docl"
    using docl md by (simp add: update_triv)
  ultimately show ?thesis
    using assms d md docl mdl by (simp add: with_annotations_def)
qed


lemma setitem_Inr:
  "setitem an k v = Inr an' \<Longrightarrow> \<exists>anl. an = VDict anl \<and> an' = VDict (AList.update (KStr k) v anl)"
  by (cases an) auto

lemma set_annotation_Inr:
  assumes "set_annotation d k = Inr d'"
  shows "\<exists>docl mdl anl.
           d = VDict docl \<and> map_of docl (KStr ''metadata'') = Some (VDict mdl)
         \<and> map_of mdl (KStr ''annotations'') = Some (VDict anl)
         \<and> d' = VDict (AList.update (KStr ''metadata'')
                  (VDict (AList.update (KStr ''annotations'')
                     (VDict (AList.update (KStr k) (VStr ''*'') anl)) mdl)) docl)"
proof -
  from assms obtain md where md: "subscript d ''metadata'' = Inr md"
    by (auto simp: set_annotation_def with_annotations_def split: sum.splits)
  with assms obtain an where an: "subscript md ''annotations'' = Inr an"
    by (auto simp: set_annotation_def with_annotations_def split: sum.splits)
  with assms md obtain an' where an': "setitem an k (VStr ''*'') = Inr an'"
    by (auto simp: set_annotation_def with_annotations_def split: sum.splits)
  obtain docl where d: "d = VDict docl" "map_of docl (KStr ''metadata'') = Some md"
    using subscript_Inr [OF md] by blast
  obtain mdl where m: "md = VDict mdl" "map_of mdl (KStr ''annotations'') = Some an"
    using subscript_Inr [OF an] by blast
  obtain anl where a: "an = VDict anl" "an' = VDict (AList.update (KStr k) (VStr ''*'') anl)"
    using setitem_Inr [OF an'] by blast
  show ?thesis
    using assms d m a by (simp add: set_annotation_def with_annotations_dict)
qed

lemma set_annotation_present:
  assumes "subscript d ''metadata'' = Inr md"
    and "subscript md ''annotations'' = Inr (VDict an)"
    and "map_of an (KStr k) = Some (VStr ''*'')"
  shows "set_annotation d k = Inr d"
proof -
  have "setitem (VDict an) k (VStr ''*'') = Inr (VDict an)"
    using assms(3) by (simp add: update_triv)
  then show ?thesis
    unfolding set_annotation_def using assms(1,2) by (intro with_annotations_same)
qed

lemma set_annotation_again:
  assumes "set_annotation d k = Inr d'"
  shows "set_annotation d' k = Inr d'"
proof -
  from set_annotation_Inr [OF assms] obtain docl mdl anl where
    d': "d' = VDict (AList.update (KStr ''metadata'')
                  (VDict (AList.update (KStr ''annotations'')
                     (VDict (AList.update (KStr k) (VStr ''*'') anl)) mdl)) docl)"
    by blast
  show ?thesis
    unfolding d'
    by (rule set_annotation_present [where
          md = "VDict (AList.update (KStr ''annotations'')
                     (VDict (AList.update (KStr k) (VStr ''*'') anl)) mdl)"
          and an = "AList.update (KStr k) (VStr ''*'') anl"])
       (simp_all add: update_conv')
qed

lemma set_annotation_frame:
  assumes "map_of docl (KStr ''metadata'') = Some (VDict mdl)"
    and "map_of mdl (KStr ''annotations'') = Some (VDict anl)"
  shows "\<exists>docl' mdl' anl'.
      set_annotation (VDict docl) k = Inr (VDict docl')
    \<and> map fst docl' = map fst docl
    \<and> (\<forall>j. j \<noteq> KStr ''metadata'' \<longrightarrow> map_of docl' j = map_of docl j)
    \<and> map_of docl' (KStr ''metadata'') = Some (VDict mdl')
    \<and> map fst mdl' = map fst mdl
    \<and> (\<forall>j. j \<noteq> KStr ''annotations'' \<longrightarrow> map_of mdl' j = map_of mdl j)
    \<and> map_of mdl' (KStr ''annotations'') = Some (VDict anl')
    \<and> map_of anl' = (map_of anl)(KStr k \<mapsto> VStr ''*'')"
proof -
  have m: "KStr ''metadata'' \<in> set (map fst docl)"
    using assms(1) by (force dest: map_of_SomeD)
  have a: "KStr ''annotations'' \<in> set (map fst mdl)"
    using assms(2) by (force dest: map_of_SomeD)
  show ?thesis
    using assms m a
    by (simp add: set_annotation_def with_annotations_dict update_keys update_conv')
qed

text \<open>
  What resume does to the annotations, for any manifest: with no key given, every
  annotation under a string key stays as it was.
\<close>

lemma resume_keeps_string_keys:
  assumes "map_of docl (KStr ''metadata'') = Some (VDict mdl)"
    and "map_of mdl (KStr ''annotations'') = Some (VDict anl)"
  shows "\<exists>docl' mdl' anl'.
      mutate_annotations (VDict docl) None = Inr (VDict docl')
    \<and> map_of docl' (KStr ''metadata'') = Some (VDict mdl')
    \<and> map_of mdl' (KStr ''annotations'') = Some (VDict anl')
    \<and> map_of anl' (KStr k) = map_of anl (KStr k)"
  using assms
  by (simp add: mutate_annotations_def pop_annotation_def with_annotations_dict update_conv'
      delete_conv')

subsection \<open>Shared objects\<close>

text \<open>
  C3, as stated. A manifest in which \<^verbatim>\<open>spec.template.annotations\<close> is an alias of
  \<^verbatim>\<open>metadata.annotations\<close>: after line 60 the key of the service is found under
  \<^verbatim>\<open>spec.template.annotations\<close> as well, where the manifest had no such key.
\<close>

theorem pause_reaches_aliased_annotations:
  "set_annotation_in_place aliased_app (ignore_tags_key ''a'') = Inr aliased_app_paused
   \<and> cell_lookup (doc_store aliased_app) (doc_root aliased_app)
          [Field (KStr ''spec''), Field (KStr ''template''), Field (KStr ''annotations''),
           Field (KStr (ignore_tags_key ''a''))]
     = None
   \<and> cell_lookup (doc_store aliased_app_paused) (doc_root aliased_app_paused)
          [Field (KStr ''spec''), Field (KStr ''template''), Field (KStr ''annotations''),
           Field (KStr (ignore_tags_key ''a''))]
     = Some (CStr ''*'')"
  by (simp add: set_annotation_in_place_def aliased_app_def aliased_app_paused_def
      ignore_tags_key_def fun_eq_iff)

text \<open>
  Line 60 where the dict under \<^verbatim>\<open>metadata.annotations\<close> is reached along no other path:
  one object of the store changes, and every path that does not go through the key leads to
  what it led to before.
\<close>

lemma cell_lookup_append:
  "cell_lookup s v (p @ q) = (case cell_lookup s v p of None \<Rightarrow> None | Some w \<Rightarrow> cell_lookup s w q)"
  by (induction p arbitrary: v) (simp_all split: option.splits)

lemma cell_subscript_descend:
  "cell_subscript s v name = Inr w \<Longrightarrow> cell_descend s v (Field (KStr name)) = Some w"
  by (cases v) (auto split: option.splits obj.splits)

lemma cell_descend_other:
  assumes "v \<noteq> Ref c"
  shows "cell_descend (s(c \<mapsto> ob)) v x = cell_descend s v x"
  using assms by (cases v; cases x) simp_all

lemma cell_descend_updated:
  assumes "s c = Some (ODict anl)" and "x \<noteq> Field k"
  shows "cell_descend (s(c \<mapsto> ODict (AList.update k v anl))) (Ref c) x = cell_descend s (Ref c) x"
  using assms by (cases x) (auto simp: update_conv')

lemma cell_lookup_snoc:
  "cell_lookup s v (p @ [x])
     = (case cell_lookup s v p of None \<Rightarrow> None | Some w \<Rightarrow> cell_descend s w x)"
  by (simp add: cell_lookup_append split: option.splits)

lemma in_place_frame:
  assumes dict: "s c = Some (ODict anl)"
    and alone: "\<forall>p. cell_lookup s r p = Some (Ref c) \<longrightarrow> p = q"
    and off: "\<not> prefix (q @ [Field k]) p"
  shows "cell_lookup (s(c \<mapsto> ODict (AList.update k v anl))) r p = cell_lookup s r p"
proof -
  define s' where "s' = s(c \<mapsto> ODict (AList.update k v anl))"
  from off have "cell_lookup s' r p = cell_lookup s r p"
  proof (induction p rule: rev_induct)
    case Nil
    show ?case by simp
  next
    case (snoc x p)
    from snoc.prems have "\<not> prefix (q @ [Field k]) p"
      by (auto simp: prefix_def)
    then have ih: "cell_lookup s' r p = cell_lookup s r p"
      by (rule snoc.IH)
    show ?case
    proof (cases "cell_lookup s r p")
      case None
      with ih show ?thesis by (simp only: cell_lookup_snoc option.case)
    next
      case (Some w)
      have "cell_descend s' w x = cell_descend s w x"
      proof (cases "w = Ref c")
        case True
        with Some alone have "p = q" by blast
        with snoc.prems have "x \<noteq> Field k" by auto
        from cell_descend_updated [where s = s and c = c and v = v, OF dict this] True
        show ?thesis
          by (simp only: s'_def)
      next
        case False
        then show ?thesis unfolding s'_def by (rule cell_descend_other)
      qed
      with ih Some show ?thesis by (simp only: cell_lookup_snoc option.case)
    qed
  qed
  then show ?thesis by (simp only: s'_def)
qed


lemma cell_lookup_scalar:
  assumes "cell_lookup s v p = Some w" and "\<forall>a. v \<noteq> Ref a"
  shows "p = [] \<and> w = v"
  using assms by (cases p; cases v) simp_all

lemma in_place_sets_only_the_annotation:
  assumes md: "cell_subscript (doc_store d) (doc_root d) ''metadata'' = Inr md"
    and an: "cell_subscript (doc_store d) md ''annotations'' = Inr (Ref c)"
    and dict: "doc_store d c = Some (ODict items)"
    and alone: "\<forall>p. cell_lookup (doc_store d) (doc_root d) p = Some (Ref c)
                  \<longrightarrow> p = annotations_path"
  shows "\<exists>d'. set_annotation_in_place d k = Inr d'
          \<and> doc_root d' = doc_root d
          \<and> doc_store d' = (doc_store d)(c \<mapsto> ODict (AList.update (KStr k) (CStr ''*'') items))
          \<and> cell_lookup (doc_store d') (doc_root d') (annotations_path @ [Field (KStr k)])
              = Some (CStr ''*'')
          \<and> (\<forall>p. \<not> prefix (annotations_path @ [Field (KStr k)]) p \<longrightarrow>
                 cell_lookup (doc_store d') (doc_root d') p
                   = cell_lookup (doc_store d) (doc_root d) p)"
proof -
  define s' where "s' = (doc_store d)(c \<mapsto> ODict (AList.update (KStr k) (CStr ''*'') items))"
  have set: "set_annotation_in_place d k = Inr (d\<lparr>doc_store := s'\<rparr>)"
    using md an dict by (simp add: set_annotation_in_place_def s'_def)
  have frame: "\<And>p. \<not> prefix (annotations_path @ [Field (KStr k)]) p \<Longrightarrow>
      cell_lookup s' (doc_root d) p = cell_lookup (doc_store d) (doc_root d) p"
    unfolding s'_def using dict alone by (rule in_place_frame)
  have at: "cell_lookup (doc_store d) (doc_root d) annotations_path = Some (Ref c)"
    using cell_subscript_descend [OF md] cell_subscript_descend [OF an]
    by (simp add: annotations_path_def)
  have "\<not> prefix (annotations_path @ [Field (KStr k)]) annotations_path"
    by (simp add: prefix_def)
  from frame [OF this] at have at': "cell_lookup s' (doc_root d) annotations_path = Some (Ref c)"
    by (simp only:)
  have "cell_descend s' (Ref c) (Field (KStr k)) = Some (CStr ''*'')"
    by (simp add: s'_def update_conv')
  with at' have star: "cell_lookup s' (doc_root d) (annotations_path @ [Field (KStr k)])
      = Some (CStr ''*'')"
    by (simp only: cell_lookup_snoc option.case)
  have r: "doc_root (d\<lparr>doc_store := s'\<rparr>) = doc_root d"
    and st: "doc_store (d\<lparr>doc_store := s'\<rparr>) = s'"
    by simp_all
  show ?thesis
  proof (intro exI [of _ "d\<lparr>doc_store := s'\<rparr>"] conjI allI impI)
    show "set_annotation_in_place d k = Inr (d\<lparr>doc_store := s'\<rparr>)" by (rule set)
    show "doc_root (d\<lparr>doc_store := s'\<rparr>) = doc_root d" by (rule r)
    show "doc_store (d\<lparr>doc_store := s'\<rparr>)
        = (doc_store d)(c \<mapsto> ODict (AList.update (KStr k) (CStr ''*'') items))"
      using st by (simp only: s'_def)
    show "cell_lookup (doc_store (d\<lparr>doc_store := s'\<rparr>)) (doc_root (d\<lparr>doc_store := s'\<rparr>))
        (annotations_path @ [Field (KStr k)]) = Some (CStr ''*'')"
      by (simp only: r st star)
  next
    fix p assume "\<not> prefix (annotations_path @ [Field (KStr k)]) p"
    from frame [OF this]
    show "cell_lookup (doc_store (d\<lparr>doc_store := s'\<rparr>)) (doc_root (d\<lparr>doc_store := s'\<rparr>)) p
        = cell_lookup (doc_store d) (doc_root d) p"
      by (simp only: r st)
  qed
qed

text \<open>
  The trees are the documents in which nothing is shared. In the store of a tree every
  object is reached along one path, its address; and line 60 on the store of a tree leaves
  the store of the tree that \<open>set_annotation\<close> builds, next to objects that are out of
  reach.
\<close>

lemma map_of_keyed:
  "map_of (map (\<lambda>(k, v). (k, f k v)) xs) k = map_option (f k) (map_of xs k)"
  by (induction xs) auto

lemma update_keyed:
  "map (\<lambda>(k, v). (k, f k v)) (AList.update k0 v0 xs)
     = AList.update k0 (f k0 v0) (map (\<lambda>(k, v). (k, f k v)) xs)"
  by (induction xs) auto

lemma tree_store_dict:
  "lookup_path t p = Some (VDict items)
     \<Longrightarrow> tree_store t p = Some (ODict (map (\<lambda>(k, v). (k, cell_of (p @ [Field k]) v)) items))"
  by (simp add: tree_store_def)

lemma tree_store_same:
  "lookup_path t' p = lookup_path t p \<Longrightarrow> tree_store t' p = tree_store t p"
  by (simp add: tree_store_def)

lemma tree_store_scalar:
  "lookup_path t p = Some (VStr s) \<Longrightarrow> tree_store t p = None"
  by (simp add: tree_store_def)

lemma tree_store_nothing:
  "lookup_path t p = None \<Longrightarrow> tree_store t p = None"
  by (simp add: tree_store_def)

lemma lookup_path_scalar: "p \<noteq> [] \<Longrightarrow> lookup_path (VStr s) p = None"
  by (cases p) simp_all

lemma in_place_on_tree:
  assumes "set_annotation t k = Inr t'"
  shows "\<exists>d'. set_annotation_in_place (shared_of t) k = Inr d'
            \<and> doc_root d' = doc_root (shared_of t')
            \<and> doc_store (shared_of t') \<subseteq>\<^sub>m doc_store d'"
proof -
  from set_annotation_Inr [OF assms] obtain docl mdl anl where
    t: "t = VDict docl" and md: "map_of docl (KStr ''metadata'') = Some (VDict mdl)"
    and an: "map_of mdl (KStr ''annotations'') = Some (VDict anl)"
    and t': "t' = VDict (AList.update (KStr ''metadata'')
                  (VDict (AList.update (KStr ''annotations'')
                     (VDict (AList.update (KStr k) (VStr ''*'') anl)) mdl)) docl)"
    by blast
  define anl' where "anl' = AList.update (KStr k) (VStr ''*'') anl"
  define mdl' where "mdl' = AList.update (KStr ''annotations'') (VDict anl') mdl"
  define docl' where "docl' = AList.update (KStr ''metadata'') (VDict mdl') docl"
  let ?m = "Field (KStr ''metadata'')" and ?a = "Field (KStr ''annotations'')"
  let ?e0 = "\<lambda>(k, v). (k, cell_of ([] @ [Field k]) v)"
  let ?e1 = "\<lambda>(k, v). (k, cell_of ([?m] @ [Field k]) v)"
  let ?e2 = "\<lambda>(k, v). (k, cell_of ([?m, ?a] @ [Field k]) v)"
  have T': "t' = VDict docl'"
    by (simp add: t' docl'_def mdl'_def anl'_def)
  have l0: "lookup_path t [] = Some (VDict docl)"
    and l1: "lookup_path t [?m] = Some (VDict mdl)"
    and l2: "lookup_path t [?m, ?a] = Some (VDict anl)"
    using md an by (simp_all add: t)
  have l0': "lookup_path t' [] = Some (VDict docl')"
    and l1': "lookup_path t' [?m] = Some (VDict mdl')"
    and l2': "lookup_path t' [?m, ?a] = Some (VDict anl')"
    by (simp_all add: T' docl'_def mdl'_def update_conv')
  have s0: "tree_store t [] = Some (ODict (map ?e0 docl))"
    and s1: "tree_store t [?m] = Some (ODict (map ?e1 mdl))"
    and s2: "tree_store t [?m, ?a] = Some (ODict (map ?e2 anl))"
    by (rule tree_store_dict, rule l0, rule tree_store_dict, rule l1, rule tree_store_dict, rule l2)
  have r0: "cell_subscript (tree_store t) (Ref []) ''metadata'' = Inr (Ref [?m])"
    using md by (simp add: s0 map_of_keyed)
  have r1: "cell_subscript (tree_store t) (Ref [?m]) ''annotations'' = Inr (Ref [?m, ?a])"
    using an by (simp add: s1 map_of_keyed)
  define s' where "s' = (tree_store t)([?m, ?a] \<mapsto>
      ODict (AList.update (KStr k) (CStr ''*'') (map ?e2 anl)))"
  have set: "set_annotation_in_place (shared_of t) k = Inr ((shared_of t)\<lparr>doc_store := s'\<rparr>)"
    using r0 r1 s2 by (simp add: set_annotation_in_place_def shared_of_def t s'_def)
  have root: "doc_root ((shared_of t)\<lparr>doc_store := s'\<rparr>) = doc_root (shared_of t')"
    by (simp add: shared_of_def t T')
  have e0: "tree_store t' [] = tree_store t []"
  proof -
    have "map ?e0 docl' = AList.update (KStr ''metadata'') (Ref [?m]) (map ?e0 docl)"
      unfolding docl'_def by (simp add: update_keyed)
    also have "\<dots> = map ?e0 docl"
      using md by (intro update_triv) (simp add: map_of_keyed)
    finally show ?thesis
      by (simp only: tree_store_dict [OF l0'] s0)
  qed
  have e1: "tree_store t' [?m] = tree_store t [?m]"
  proof -
    have "map ?e1 mdl' = AList.update (KStr ''annotations'') (Ref [?m, ?a]) (map ?e1 mdl)"
      unfolding mdl'_def by (simp add: update_keyed)
    also have "\<dots> = map ?e1 mdl"
      using an by (intro update_triv) (simp add: map_of_keyed)
    finally show ?thesis
      by (simp only: tree_store_dict [OF l1'] s1)
  qed
  have e2: "tree_store t' [?m, ?a] = s' [?m, ?a]"
  proof -
    have "map ?e2 anl' = AList.update (KStr k) (CStr ''*'') (map ?e2 anl)"
      unfolding anl'_def by (simp add: update_keyed)
    then show ?thesis
      by (simp add: tree_store_dict [OF l2'] s'_def)
  qed
  have rest: "tree_store t' p = None \<or> tree_store t' p = tree_store t p"
    if "p \<noteq> []" "p \<noteq> [?m]" "p \<noteq> [?m, ?a]" for p
  proof -
    have "lookup_path t' p = lookup_path t p
        \<or> lookup_path t' p = None \<or> lookup_path t' p = Some (VStr ''*'')"
    proof (cases p)
      case Nil
      with that show ?thesis by simp
    next
      case p1: (Cons x1 q1)
      show ?thesis
      proof (cases "x1 = ?m")
        case False
        then have "descend t' x1 = descend t x1"
          by (cases x1) (auto simp: T' t docl'_def update_conv')
        then show ?thesis by (simp add: p1)
      next
        case x1: True
        show ?thesis
        proof (cases q1)
          case Nil
          with that p1 x1 show ?thesis by simp
        next
          case p2: (Cons x2 q2)
          have d1: "lookup_path t' p = lookup_path (VDict mdl') q1"
            and d1': "lookup_path t p = lookup_path (VDict mdl) q1"
            using md by (simp_all add: p1 x1 T' t docl'_def update_conv')
          show ?thesis
          proof (cases "x2 = ?a")
            case False
            then have "descend (VDict mdl') x2 = descend (VDict mdl) x2"
              by (cases x2) (auto simp: mdl'_def update_conv')
            then show ?thesis by (simp add: d1 d1' p2)
          next
            case x2: True
            show ?thesis
            proof (cases q2)
              case Nil
              with that p1 x1 p2 x2 show ?thesis by simp
            next
              case p3: (Cons x3 q3)
              have d2: "lookup_path t' p = lookup_path (VDict anl') q2"
                and d2': "lookup_path t p = lookup_path (VDict anl) q2"
                using an by (simp_all add: d1 d1' p2 x2 mdl'_def update_conv')
              show ?thesis
              proof (cases "x3 = Field (KStr k)")
                case False
                then have "descend (VDict anl') x3 = descend (VDict anl) x3"
                  by (cases x3) (auto simp: anl'_def update_conv')
                then show ?thesis by (simp add: d2 d2' p3)
              next
                case True
                then have "lookup_path t' p = lookup_path (VStr ''*'') q3"
                  by (simp add: d2 p3 anl'_def update_conv')
                then show ?thesis
                  by (cases q3) simp_all
              qed
            qed
          qed
        qed
      qed
    qed
    then show ?thesis
      by (auto simp: tree_store_def)
  qed
  have "tree_store t' \<subseteq>\<^sub>m s'"
    unfolding map_le_def
  proof
    fix p assume p: "p \<in> dom (tree_store t')"
    show "tree_store t' p = s' p"
    proof (cases "p = [?m, ?a]")
      case True
      then show ?thesis by (simp only: e2)
    next
      case False
      then have s: "s' p = tree_store t p" by (simp add: s'_def)
      show ?thesis
      proof (cases "p = [] \<or> p = [?m]")
        case True
        with e0 e1 s show ?thesis by auto
      next
        case False
        with \<open>p \<noteq> [?m, ?a]\<close> rest [of p] p s show ?thesis by auto
      qed
    qed
  qed
  with set root show ?thesis
    by (intro exI [of _ "(shared_of t)\<lparr>doc_store := s'\<rparr>"]) (simp add: shared_of_def)
qed

lemma lookup_path_snoc:
  "lookup_path v (p @ [x]) = (case lookup_path v p of None \<Rightarrow> None | Some w \<Rightarrow> descend w x)"
  by (induction p arbitrary: v) (simp_all split: option.splits)

lemma cell_descend_tree_store:
  assumes "lookup_path t p = Some v"
  shows "cell_descend (tree_store t) (cell_of p v) x = map_option (cell_of (p @ [x])) (descend v x)"
proof (cases v)
  case (VDict items)
  with assms show ?thesis
    by (cases x) (simp_all add: tree_store_def map_of_keyed)
next
  case (VList xs)
  with assms show ?thesis
    by (cases x) (simp_all add: tree_store_def)
qed (cases x; simp)+

lemma cell_lookup_tree_store:
  "cell_lookup (tree_store t) (cell_of [] t) p = map_option (cell_of p) (lookup_path t p)"
proof (induction p rule: rev_induct)
  case Nil
  show ?case by simp
next
  case (snoc x p)
  show ?case
  proof (cases "lookup_path t p")
    case None
    with snoc show ?thesis by (simp add: cell_lookup_snoc lookup_path_snoc)
  next
    case (Some v)
    with snoc cell_descend_tree_store [OF Some, of x] show ?thesis
      by (simp add: cell_lookup_snoc lookup_path_snoc)
  qed
qed

lemma cell_of_Ref: "cell_of p v = Ref q \<Longrightarrow> q = p"
  by (cases v) simp_all

lemma tree_store_one_path:
  assumes "cell_lookup (doc_store (shared_of t)) (doc_root (shared_of t)) p = Some (Ref q)"
  shows "p = q"
  using assms by (auto simp: shared_of_def cell_lookup_tree_store dest: cell_of_Ref)

lemma cell_lookup_CStr: "cell_lookup s (CStr y) q = Some (Ref w) \<longleftrightarrow> False"
  by (cases q) simp_all

lemma labelled_app_alone:
  assumes "cell_lookup (doc_store labelled_app) (doc_root labelled_app) p = Some (Ref 2)"
  shows "p = annotations_path"
proof -
  let ?s = "doc_store labelled_app"
  have r: "doc_root labelled_app = Ref 0"
    and g0: "?s 0 = Some (ODict [(KStr ''metadata'', Ref (Suc 0)), (KStr ''labels'', Ref 3)])"
    and g1: "?s (Suc 0) = Some (ODict [(KStr ''annotations'', Ref 2), (KStr ''labels'', Ref 3)])"
    and g2: "?s 2 = Some (ODict [(KStr ''team'', CStr ''x'')])"
    and g3: "?s 3 = Some (ODict [(KStr ''app'', CStr ''y'')])"
    by (simp_all add: labelled_app_def)
  have o3: "\<And>q. cell_lookup ?s (Ref 3) q = Some (Ref 2) \<Longrightarrow> False"
  proof -
    fix q assume h: "cell_lookup ?s (Ref 3) q = Some (Ref 2)"
    show False
    proof (cases q)
      case Nil
      with h show ?thesis by simp
    next
      case (Cons x r)
      with h show ?thesis
        by (cases x) (auto simp: g3 cell_lookup_CStr split: option.splits if_splits)
    qed
  qed
  have o2: "\<And>q. cell_lookup ?s (Ref 2) q = Some (Ref 2) \<Longrightarrow> q = []"
  proof -
    fix q assume h: "cell_lookup ?s (Ref 2) q = Some (Ref 2)"
    show "q = []"
    proof (cases q)
      case (Cons x r)
      with h show ?thesis
        by (cases x) (auto simp: g2 cell_lookup_CStr split: option.splits if_splits)
    qed simp
  qed
  have o1: "\<And>q. cell_lookup ?s (Ref (Suc 0)) q = Some (Ref 2) \<Longrightarrow> q = [Field (KStr ''annotations'')]"
  proof -
    fix q assume h: "cell_lookup ?s (Ref (Suc 0)) q = Some (Ref 2)"
    show "q = [Field (KStr ''annotations'')]"
    proof (cases q)
      case Nil
      with h show ?thesis by simp
    next
      case (Cons x r)
      with h show ?thesis
        by (cases x) (auto simp: g1 split: option.splits if_splits dest: o2 o3)
    qed
  qed
  show ?thesis
  proof (cases p)
    case Nil
    with assms show ?thesis by (simp add: r)
  next
    case (Cons x q)
    with assms show ?thesis
      by (cases x)
         (auto simp: r g0 annotations_path_def split: option.splits if_splits dest: o1 o3)
  qed
qed

subsection \<open>One service\<close>

lemma modify_application_read_fails:
  assumes "gh_get_contents gh repo (application_path env service) (Some (default_branch repo))
             (world st) = (Inl e, w1)"
  shows "modify_application gh lib repo env service branch ak st
       = (Inl e, \<lparr>world = w1, trace = trace st
             @ [GetContents (application_path env service) (Some (default_branch repo))]\<rparr>)"
  using assms by (simp add: modify_application_def and_then_def perform_eq)

lemma modify_application_file:
  assumes "gh_get_contents gh repo (application_path env service) (Some (default_branch repo))
             (world st) = (Inr (File cf), w1)"
  shows "modify_application gh lib repo env service branch ak st =
     (case rewrite_manifest lib (File cf) ak of
        Inl e \<Rightarrow>
          (Inl e, \<lparr>world = w1, trace = trace st
             @ [GetContents (application_path env service) (Some (default_branch repo))]\<rparr>)
      | Inr t \<Rightarrow>
          (fst (gh_update_file gh repo (cf_path cf) (commit_message env service) t (cf_sha cf)
                  branch w1),
           \<lparr>world = snd (gh_update_file gh repo (cf_path cf) (commit_message env service) t
                          (cf_sha cf) branch w1),
            trace = trace st
             @ [GetContents (application_path env service) (Some (default_branch repo)),
                UpdateFile (cf_path cf) (commit_message env service) t (cf_sha cf) branch]\<rparr>))"
  using assms
  by (simp add: modify_application_def and_then_def perform_eq pure_step_def update_repo_file_def
      split: sum.splits)

lemma modify_application_dir:
  assumes "gh_get_contents gh repo (application_path env service) (Some (default_branch repo))
             (world st) = (Inr (Dir entries), w1)"
  shows "modify_application gh lib repo env service branch ak st
       = (Inl (AttributeError ''decoded_content''), \<lparr>world = w1, trace = trace st
             @ [GetContents (application_path env service) (Some (default_branch repo))]\<rparr>)"
  using assms
  by (simp add: modify_application_def and_then_def perform_eq pure_step_def
      rewrite_manifest_def decoded_content_def)

lemma modify_application_trace:
  assumes "modify_application gh lib repo env (cf_name svc) branch ak st = (r, st')"
  shows "(\<exists>u. trace st' = trace st @ [service_read repo env svc, u]
              \<and> is_update_on branch (commit_message env (cf_name svc)) u)
       \<or> (trace st' = trace st @ [service_read repo env svc] \<and> (\<exists>e. r = Inl e))"
proof -
  obtain res w1 where g: "gh_get_contents gh repo (application_path env (cf_name svc))
      (Some (default_branch repo)) (world st) = (res, w1)"
    by (cases "gh_get_contents gh repo (application_path env (cf_name svc))
      (Some (default_branch repo)) (world st)")
  show ?thesis
  proof (cases res)
    case (Inl e)
    with g assms show ?thesis
      by (auto simp: modify_application_read_fails service_read_def)
  next
    case (Inr c)
    show ?thesis
    proof (cases c)
      case (File cf)
      with g Inr assms show ?thesis
        by (auto simp: modify_application_file service_read_def split: sum.splits)
    next
      case (Dir entries)
      with g Inr assms show ?thesis
        by (auto simp: modify_application_dir service_read_def)
    qed
  qed
qed

lemma modify_application_attempted:
  assumes "modify_application gh lib repo env (cf_name svc) branch ak st = (r, st')"
  shows "\<exists>tr. trace st' = trace st @ tr \<and> attempted repo env branch svc tr"
  using modify_application_trace [OF assms] by (auto simp: attempted_def)

lemma modify_application_done:
  assumes "modify_application gh lib repo env (cf_name svc) branch ak st = (Inr x, st')"
  shows "\<exists>u. trace st' = trace st @ [service_read repo env svc, u]
            \<and> is_update_on branch (commit_message env (cf_name svc)) u"
  using modify_application_trace [OF assms] by auto

lemma ignore_tags_key_truthy: "ignore_tags_key name \<noteq> []"
  by (simp add: ignore_tags_key_def)

lemma pause_writes_the_document_with_the_key:
  assumes read: "gh_get_contents gh repo (application_path env service)
                   (Some (default_branch repo)) (world st) = (Inr (File cf), w1)"
    and raw: "cf_decoded_content cf = Inr raw"
    and parse: "load_text lib raw = Inr (VDict docl)"
    and md: "map_of docl (KStr ''metadata'') = Some (VDict mdl)"
    and an: "map_of mdl (KStr ''annotations'') = Some (VDict anl)"
  shows "\<exists>docl' mdl' anl'.
      mutate_annotations (VDict docl) (Some (ignore_tags_key service)) = Inr (VDict docl')
    \<and> modify_application gh lib repo env service branch (Some (ignore_tags_key service)) st
        = (fst (gh_update_file gh repo (cf_path cf) (commit_message env service)
                  (yaml_emit lib (represent (VDict docl'))) (cf_sha cf) branch w1),
           \<lparr>world = snd (gh_update_file gh repo (cf_path cf) (commit_message env service)
                          (yaml_emit lib (represent (VDict docl'))) (cf_sha cf) branch w1),
            trace = trace st
              @ [GetContents (application_path env service) (Some (default_branch repo)),
                 UpdateFile (cf_path cf) (commit_message env service)
                   (yaml_emit lib (represent (VDict docl'))) (cf_sha cf) branch]\<rparr>)
    \<and> map fst docl' = map fst docl
    \<and> (\<forall>j. j \<noteq> KStr ''metadata'' \<longrightarrow> map_of docl' j = map_of docl j)
    \<and> map_of docl' (KStr ''metadata'') = Some (VDict mdl')
    \<and> map fst mdl' = map fst mdl
    \<and> (\<forall>j. j \<noteq> KStr ''annotations'' \<longrightarrow> map_of mdl' j = map_of mdl j)
    \<and> map_of mdl' (KStr ''annotations'') = Some (VDict anl')
    \<and> anl' = AList.update (KStr (ignore_tags_key service)) (VStr ''*'') anl
    \<and> map_of anl' = (map_of anl)(KStr (ignore_tags_key service) \<mapsto> VStr ''*'')
    \<and> (\<exists>d'. set_annotation_in_place (shared_of (VDict docl)) (ignore_tags_key service) = Inr d'
           \<and> doc_root d' = doc_root (shared_of (VDict docl'))
           \<and> doc_store (shared_of (VDict docl')) \<subseteq>\<^sub>m doc_store d')"
proof -
  define anl' where "anl' = AList.update (KStr (ignore_tags_key service)) (VStr ''*'') anl"
  define mdl' where "mdl' = AList.update (KStr ''annotations'') (VDict anl') mdl"
  define docl' where "docl' = AList.update (KStr ''metadata'') (VDict mdl') docl"
  have km: "KStr ''metadata'' \<in> set (map fst docl)"
    using md by (force dest: map_of_SomeD)
  have ka: "KStr ''annotations'' \<in> set (map fst mdl)"
    using an by (force dest: map_of_SomeD)
  have s: "set_annotation (VDict docl) (ignore_tags_key service) = Inr (VDict docl')"
    using md an by (simp add: set_annotation_def with_annotations_dict docl'_def mdl'_def anl'_def)
  have f: "map fst docl' = map fst docl"
      "\<forall>j. j \<noteq> KStr ''metadata'' \<longrightarrow> map_of docl' j = map_of docl j"
      "map_of docl' (KStr ''metadata'') = Some (VDict mdl')"
      "map fst mdl' = map fst mdl"
      "\<forall>j. j \<noteq> KStr ''annotations'' \<longrightarrow> map_of mdl' j = map_of mdl j"
      "map_of mdl' (KStr ''annotations'') = Some (VDict anl')"
      "anl' = AList.update (KStr (ignore_tags_key service)) (VStr ''*'') anl"
      "map_of anl' = (map_of anl)(KStr (ignore_tags_key service) \<mapsto> VStr ''*'')"
    using km ka by (simp_all add: docl'_def mdl'_def anl'_def update_keys update_conv')
  have m: "mutate_annotations (VDict docl) (Some (ignore_tags_key service)) = Inr (VDict docl')"
    using s by (simp add: mutate_annotations_def ignore_tags_key_truthy)
  then have "rewrite_manifest lib (File cf) (Some (ignore_tags_key service))
          = Inr (yaml_emit lib (represent (VDict docl')))"
    using raw parse
    by (simp add: rewrite_manifest_def decoded_content_def rewrite_text_def yaml_dump_def)
  then have "modify_application gh lib repo env service branch (Some (ignore_tags_key service)) st
        = (fst (gh_update_file gh repo (cf_path cf) (commit_message env service)
                  (yaml_emit lib (represent (VDict docl'))) (cf_sha cf) branch w1),
           \<lparr>world = snd (gh_update_file gh repo (cf_path cf) (commit_message env service)
                          (yaml_emit lib (represent (VDict docl'))) (cf_sha cf) branch w1),
            trace = trace st
              @ [GetContents (application_path env service) (Some (default_branch repo)),
                 UpdateFile (cf_path cf) (commit_message env service)
                   (yaml_emit lib (represent (VDict docl'))) (cf_sha cf) branch]\<rparr>)"
    by (simp add: modify_application_file [OF read])
  moreover note m f in_place_on_tree [OF s]
  ultimately show ?thesis by blast
qed

text \<open>
  C3. Line 60 with the key of a service, on a document whose \<^verbatim>\<open>metadata.annotations\<close> is
  a dict that no other path of the document leads to: the dict is changed where it is and
  holds \<^verbatim>\<open>*\<close> under the key; no other object of the store changes, and every path that
  does not go through the key leads to what it led to before. And for a manifest without
  aliases that parses to a dict with a dict \<^verbatim>\<open>metadata\<close> holding a dict
  \<^verbatim>\<open>annotations\<close>: \<^verbatim>\<open>modify_application\<close>, called with the key of the service as
  \<^verbatim>\<open>pause\<close> calls it, reads the manifest and then updates it with the text the emitter
  makes of the document that the change leaves. That document has the keys of the input, in
  the same order and with the same values, but for \<^verbatim>\<open>metadata\<close>; it has under
  \<^verbatim>\<open>metadata\<close> the keys of the input, in the same order and with the same values, but for
  \<^verbatim>\<open>annotations\<close>; and its annotations are those of the input with the key of the service
  set to \<^verbatim>\<open>*\<close>. Its objects are those line 60 leaves behind when it changes the dict in
  the store of the input.
\<close>

theorem pause_sets_only_the_annotation:
  fixes d :: "'a shared_doc"
  shows
    "(cell_subscript (doc_store d) (doc_root d) ''metadata'' = Inr mdc
        \<and> cell_subscript (doc_store d) mdc ''annotations'' = Inr (Ref c)
        \<and> doc_store d c = Some (ODict items)
        \<and> (\<forall>p. cell_lookup (doc_store d) (doc_root d) p = Some (Ref c) \<longrightarrow> p = annotations_path)
      \<longrightarrow> (\<exists>d'. set_annotation_in_place d (ignore_tags_key service) = Inr d'
             \<and> doc_root d' = doc_root d
             \<and> doc_store d'
                 = (doc_store d)(c \<mapsto>
                     ODict (AList.update (KStr (ignore_tags_key service)) (CStr ''*'') items))
             \<and> cell_lookup (doc_store d') (doc_root d')
                   (annotations_path @ [Field (KStr (ignore_tags_key service))])
                 = Some (CStr ''*'')
             \<and> (\<forall>p. \<not> prefix (annotations_path @ [Field (KStr (ignore_tags_key service))]) p \<longrightarrow>
                    cell_lookup (doc_store d') (doc_root d') p
                      = cell_lookup (doc_store d) (doc_root d) p)))
   \<and> (gh_get_contents gh repo (application_path env service) (Some (default_branch repo))
          (world st) = (Inr (File cf), w1)
        \<and> cf_decoded_content cf = Inr raw
        \<and> load_text lib raw = Inr (VDict docl)
        \<and> map_of docl (KStr ''metadata'') = Some (VDict mdl)
        \<and> map_of mdl (KStr ''annotations'') = Some (VDict anl)
      \<longrightarrow> (\<exists>docl' mdl' anl'.
             mutate_annotations (VDict docl) (Some (ignore_tags_key service)) = Inr (VDict docl')
           \<and> modify_application gh lib repo env service branch (Some (ignore_tags_key service)) st
               = (fst (gh_update_file gh repo (cf_path cf) (commit_message env service)
                         (yaml_emit lib (represent (VDict docl'))) (cf_sha cf) branch w1),
                  \<lparr>world = snd (gh_update_file gh repo (cf_path cf) (commit_message env service)
                                 (yaml_emit lib (represent (VDict docl'))) (cf_sha cf) branch w1),
                   trace = trace st
                     @ [GetContents (application_path env service) (Some (default_branch repo)),
                        UpdateFile (cf_path cf) (commit_message env service)
                          (yaml_emit lib (represent (VDict docl'))) (cf_sha cf) branch]\<rparr>)
           \<and> map fst docl' = map fst docl
           \<and> (\<forall>j. j \<noteq> KStr ''metadata'' \<longrightarrow> map_of docl' j = map_of docl j)
           \<and> map_of docl' (KStr ''metadata'') = Some (VDict mdl')
           \<and> map fst mdl' = map fst mdl
           \<and> (\<forall>j. j \<noteq> KStr ''annotations'' \<longrightarrow> map_of mdl' j = map_of mdl j)
           \<and> map_of mdl' (KStr ''annotations'') = Some (VDict anl')
           \<and> anl' = AList.update (KStr (ignore_tags_key service)) (VStr ''*'') anl
           \<and> map_of anl' = (map_of anl)(KStr (ignore_tags_key service) \<mapsto> VStr ''*'')
           \<and> (\<exists>d'. set_annotation_in_place (shared_of (VDict docl)) (ignore_tags_key service) = Inr d'
                  \<and> doc_root d' = doc_root (shared_of (VDict docl'))
                  \<and> doc_store (shared_of (VDict docl')) \<subseteq>\<^sub>m doc_store d')))"
proof (intro conjI impI)
  assume h: "cell_subscript (doc_store d) (doc_root d) ''metadata'' = Inr mdc
        \<and> cell_subscript (doc_store d) mdc ''annotations'' = Inr (Ref c)
        \<and> doc_store d c = Some (ODict items)
        \<and> (\<forall>p. cell_lookup (doc_store d) (doc_root d) p = Some (Ref c) \<longrightarrow> p = annotations_path)"
  then have md: "cell_subscript (doc_store d) (doc_root d) ''metadata'' = Inr mdc"
    and an: "cell_subscript (doc_store d) mdc ''annotations'' = Inr (Ref c)"
    and dict: "doc_store d c = Some (ODict items)"
    and alone: "\<forall>p. cell_lookup (doc_store d) (doc_root d) p = Some (Ref c)
                  \<longrightarrow> p = annotations_path"
    by blast+
  show "\<exists>d'. set_annotation_in_place d (ignore_tags_key service) = Inr d'
             \<and> doc_root d' = doc_root d
             \<and> doc_store d'
                 = (doc_store d)(c \<mapsto>
                     ODict (AList.update (KStr (ignore_tags_key service)) (CStr ''*'') items))
             \<and> cell_lookup (doc_store d') (doc_root d')
                   (annotations_path @ [Field (KStr (ignore_tags_key service))])
                 = Some (CStr ''*'')
             \<and> (\<forall>p. \<not> prefix (annotations_path @ [Field (KStr (ignore_tags_key service))]) p \<longrightarrow>
                    cell_lookup (doc_store d') (doc_root d') p
                      = cell_lookup (doc_store d) (doc_root d) p)"
    by (rule in_place_sets_only_the_annotation [OF md an dict alone])
next
  assume h: "gh_get_contents gh repo (application_path env service) (Some (default_branch repo))
          (world st) = (Inr (File cf), w1)
        \<and> cf_decoded_content cf = Inr raw
        \<and> load_text lib raw = Inr (VDict docl)
        \<and> map_of docl (KStr ''metadata'') = Some (VDict mdl)
        \<and> map_of mdl (KStr ''annotations'') = Some (VDict anl)"
  then have read: "gh_get_contents gh repo (application_path env service)
                   (Some (default_branch repo)) (world st) = (Inr (File cf), w1)"
    and raw: "cf_decoded_content cf = Inr raw"
    and parse: "load_text lib raw = Inr (VDict docl)"
    and md: "map_of docl (KStr ''metadata'') = Some (VDict mdl)"
    and an: "map_of mdl (KStr ''annotations'') = Some (VDict anl)"
    by blast+
  show "\<exists>docl' mdl' anl'.
             mutate_annotations (VDict docl) (Some (ignore_tags_key service)) = Inr (VDict docl')
           \<and> modify_application gh lib repo env service branch (Some (ignore_tags_key service)) st
               = (fst (gh_update_file gh repo (cf_path cf) (commit_message env service)
                         (yaml_emit lib (represent (VDict docl'))) (cf_sha cf) branch w1),
                  \<lparr>world = snd (gh_update_file gh repo (cf_path cf) (commit_message env service)
                                 (yaml_emit lib (represent (VDict docl'))) (cf_sha cf) branch w1),
                   trace = trace st
                     @ [GetContents (application_path env service) (Some (default_branch repo)),
                        UpdateFile (cf_path cf) (commit_message env service)
                          (yaml_emit lib (represent (VDict docl'))) (cf_sha cf) branch]\<rparr>)
           \<and> map fst docl' = map fst docl
           \<and> (\<forall>j. j \<noteq> KStr ''metadata'' \<longrightarrow> map_of docl' j = map_of docl j)
           \<and> map_of docl' (KStr ''metadata'') = Some (VDict mdl')
           \<and> map fst mdl' = map fst mdl
           \<and> (\<forall>j. j \<noteq> KStr ''annotations'' \<longrightarrow> map_of mdl' j = map_of mdl j)
           \<and> map_of mdl' (KStr ''annotations'') = Some (VDict anl')
           \<and> anl' = AList.update (KStr (ignore_tags_key service)) (VStr ''*'') anl
           \<and> map_of anl' = (map_of anl)(KStr (ignore_tags_key service) \<mapsto> VStr ''*'')
           \<and> (\<exists>d'. set_annotation_in_place (shared_of (VDict docl)) (ignore_tags_key service) = Inr d'
                  \<and> doc_root d' = doc_root (shared_of (VDict docl'))
                  \<and> doc_store (shared_of (VDict docl')) \<subseteq>\<^sub>m doc_store d')"
    by (rule pause_writes_the_document_with_the_key [OF read raw parse md an])
qed

theorem pause_sets_only_the_annotation_witness:
  "set_annotation_in_place labelled_app (ignore_tags_key ''c'') = Inr labelled_app_paused
   \<and> cell_lookup (doc_store labelled_app_paused) (doc_root labelled_app_paused)
          (annotations_path @ [Field (KStr (ignore_tags_key ''c''))])
     = Some (CStr ''*'')
   \<and> cell_lookup (doc_store labelled_app_paused) (doc_root labelled_app_paused)
          [Field (KStr ''labels''), Field (KStr ''app'')]
     = Some (CStr ''y'')
   \<and> modify_application
       (stub_github [(''envs/staging/c/application.yaml'',
                      manifest ''envs/staging/c/application.yaml'' team_app)] [])
       tree_lib repo0 (Some ''staging'') ''c'' ''pause-staging-2024-01-01''
       (Some (ignore_tags_key ''c'')) start
     = (Inr (),
        \<lparr>world = (),
         trace =
           [GetContents ''envs/staging/c/application.yaml'' (Some ''main''),
            UpdateFile ''envs/staging/c/application.yaml'' ''Modify c in staging.''
              (VDict
                [(KStr ''kind'', VStr ''Application''),
                 (KStr ''metadata'',
                  VDict
                   [(KStr ''annotations'',
                     VDict
                      [(KStr ''argocd-image-updater.argoproj.io/c.ignore-tags'', VStr ''*''),
                       (KStr ''team'', VStr ''x'')]),
                    (KStr ''name'', VStr ''svc'')])])
              ''abc'' ''pause-staging-2024-01-01'']\<rparr>)"
proof -
  let ?path = "''envs/staging/c/application.yaml''"
  let ?gh = "stub_github [(?path, manifest ?path team_app)] []"
  let ?docl = "[(KStr ''kind'', VStr ''Application''),
                (KStr ''metadata'', VDict [(KStr ''name'', VStr ''svc''),
                                           (KStr ''annotations'', VDict [(KStr ''team'', VStr ''x'')])])]"
  let ?mdl = "[(KStr ''name'', VStr ''svc''),
               (KStr ''annotations'', VDict [(KStr ''team'', VStr ''x'')])]"
  have shared: "cell_subscript (doc_store labelled_app) (doc_root labelled_app) ''metadata''
        = Inr (Ref 1)
      \<and> cell_subscript (doc_store labelled_app) (Ref 1) ''annotations'' = Inr (Ref 2)
      \<and> doc_store labelled_app 2 = Some (ODict [(KStr ''team'', CStr ''x'')])
      \<and> (\<forall>p. cell_lookup (doc_store labelled_app) (doc_root labelled_app) p = Some (Ref 2)
              \<longrightarrow> p = annotations_path)"
    using labelled_app_alone by (simp add: labelled_app_def)
  have tree: "gh_get_contents ?gh repo0 (application_path (Some ''staging'') ''c'')
          (Some (default_branch repo0)) (world start)
        = (Inr (File (manifest_file ?path team_app)), ())
      \<and> cf_decoded_content (manifest_file ?path team_app) = Inr team_app
      \<and> load_text tree_lib team_app = Inr (VDict ?docl)
      \<and> map_of ?docl (KStr ''metadata'') = Some (VDict ?mdl)
      \<and> map_of ?mdl (KStr ''annotations'') = Some (VDict [(KStr ''team'', VStr ''x'')])"
    by (simp add: stub_github_def manifest_def manifest_file_def application_path_def
        load_text_def tree_lib_def team_app_def application_def)
  note both = pause_sets_only_the_annotation [where d = labelled_app and mdc = "Ref 1" and c = 2
      and items = "[(KStr ''team'', CStr ''x'')]" and service = "''c''"
      and gh = ?gh and repo = repo0 and env = "Some ''staging''" and st = start
      and cf = "manifest_file ?path team_app" and ?w1.0 = "()" and raw = team_app
      and lib = tree_lib and docl = ?docl and mdl = ?mdl
      and anl = "[(KStr ''team'', VStr ''x'')]" and branch = "''pause-staging-2024-01-01''"]
  from both shared obtain d' where
    s: "set_annotation_in_place labelled_app (ignore_tags_key ''c'') = Inr d'"
    and r: "doc_root d' = doc_root labelled_app"
    and st: "doc_store d' = (doc_store labelled_app)(2 \<mapsto>
               ODict (AList.update (KStr (ignore_tags_key ''c'')) (CStr ''*'')
                 [(KStr ''team'', CStr ''x'')]))"
    and star: "cell_lookup (doc_store d') (doc_root d')
        (annotations_path @ [Field (KStr (ignore_tags_key ''c''))]) = Some (CStr ''*'')"
    and frame: "\<forall>p. \<not> prefix (annotations_path @ [Field (KStr (ignore_tags_key ''c''))]) p \<longrightarrow>
        cell_lookup (doc_store d') (doc_root d') p
          = cell_lookup (doc_store labelled_app) (doc_root labelled_app) p"
    by blast
  have "\<not> prefix (annotations_path @ [Field (KStr (ignore_tags_key ''c''))])
          [Field (KStr ''labels''), Field (KStr ''app'')]"
    by (simp add: annotations_path_def)
  with frame have "cell_lookup (doc_store d') (doc_root d') [Field (KStr ''labels''), Field (KStr ''app'')]
      = cell_lookup (doc_store labelled_app) (doc_root labelled_app)
          [Field (KStr ''labels''), Field (KStr ''app'')]"
    by blast
  also have "\<dots> = Some (CStr ''y'')"
    by (simp add: labelled_app_def)
  finally have other: "cell_lookup (doc_store d') (doc_root d')
      [Field (KStr ''labels''), Field (KStr ''app'')] = Some (CStr ''y'')" .
  from both tree obtain docl' where
    m: "mutate_annotations (VDict ?docl) (Some (ignore_tags_key ''c'')) = Inr (VDict docl')"
    and w: "modify_application ?gh tree_lib repo0 (Some ''staging'') ''c''
          ''pause-staging-2024-01-01'' (Some (ignore_tags_key ''c'')) start
        = (fst (gh_update_file ?gh repo0 (cf_path (manifest_file ?path team_app))
                  (commit_message (Some ''staging'') ''c'')
                  (yaml_emit tree_lib (represent (VDict docl')))
                  (cf_sha (manifest_file ?path team_app)) ''pause-staging-2024-01-01'' ()),
           \<lparr>world = snd (gh_update_file ?gh repo0 (cf_path (manifest_file ?path team_app))
                  (commit_message (Some ''staging'') ''c'')
                  (yaml_emit tree_lib (represent (VDict docl')))
                  (cf_sha (manifest_file ?path team_app)) ''pause-staging-2024-01-01'' ()),
            trace = trace start
              @ [GetContents (application_path (Some ''staging'') ''c'')
                   (Some (default_branch repo0)),
                 UpdateFile (cf_path (manifest_file ?path team_app))
                   (commit_message (Some ''staging'') ''c'')
                   (yaml_emit tree_lib (represent (VDict docl')))
                   (cf_sha (manifest_file ?path team_app)) ''pause-staging-2024-01-01'']\<rparr>)"
    by blast
  have "mutate_annotations (VDict ?docl) (Some (ignore_tags_key ''c''))
      = Inr (VDict
          [(KStr ''kind'', VStr ''Application''),
           (KStr ''metadata'',
            VDict [(KStr ''name'', VStr ''svc''),
                   (KStr ''annotations'',
                    VDict [(KStr ''team'', VStr ''x''),
                           (KStr (ignore_tags_key ''c''), VStr ''*'')])])])"
    by (simp add: mutate_annotations_def set_annotation_def with_annotations_def
        ignore_tags_key_def)
  with m have docl': "docl' =
          [(KStr ''kind'', VStr ''Application''),
           (KStr ''metadata'',
            VDict [(KStr ''name'', VStr ''svc''),
                   (KStr ''annotations'',
                    VDict [(KStr ''team'', VStr ''x''),
                           (KStr (ignore_tags_key ''c''), VStr ''*'')])])]"
    by simp
  have written: "modify_application ?gh tree_lib repo0 (Some ''staging'') ''c''
          ''pause-staging-2024-01-01'' (Some (ignore_tags_key ''c'')) start
     = (Inr (),
        \<lparr>world = (),
         trace =
           [GetContents ''envs/staging/c/application.yaml'' (Some ''main''),
            UpdateFile ''envs/staging/c/application.yaml'' ''Modify c in staging.''
              (VDict
                [(KStr ''kind'', VStr ''Application''),
                 (KStr ''metadata'',
                  VDict
                   [(KStr ''annotations'',
                     VDict
                      [(KStr ''argocd-image-updater.argoproj.io/c.ignore-tags'', VStr ''*''),
                       (KStr ''team'', VStr ''x'')]),
                    (KStr ''name'', VStr ''svc'')])])
              ''abc'' ''pause-staging-2024-01-01'']\<rparr>)"
    unfolding w docl'
    by (simp add: stub_github_def manifest_file_def commit_message_def application_path_def
        tree_lib_def sorted_items_def ignore_tags_key_def start_def repo0_def)
  have "doc_root d' = doc_root labelled_app_paused"
    using r by (simp add: labelled_app_def labelled_app_paused_def)
  moreover have "doc_store d' = doc_store labelled_app_paused"
    using st by (simp add: labelled_app_def labelled_app_paused_def ignore_tags_key_def fun_eq_iff)
  ultimately have "d' = labelled_app_paused"
    by simp
  with s star other written show ?thesis
    by simp
qed

lemma mutate_annotations_cases:
  "mutate_annotations app ak =
     with_annotations (\<lambda>an. case ak of
         Some k \<Rightarrow> if k \<noteq> [] then setitem an k (VStr ''*'') else pop_default an (Some k)
       | None \<Rightarrow> pop_default an None) app"
  by (simp add: mutate_annotations_def set_annotation_def pop_annotation_def split: option.splits)

lemma mutation_on_dict:
  "\<exists>an'. (case ak of
         Some k \<Rightarrow> if k \<noteq> [] then setitem (VDict anl) k (VStr ''*'')
                   else pop_default (VDict anl) (Some k)
       | None \<Rightarrow> pop_default (VDict anl) None) = Inr an'"
  by (simp split: option.splits)

lemma modify_application_change_fails:
  assumes read: "gh_get_contents gh repo (application_path env service)
                   (Some (default_branch repo)) (world st) = (Inr (File cf), w1)"
    and raw: "cf_decoded_content cf = Inr raw"
    and parse: "load_text lib raw = Inr app"
    and change: "mutate_annotations app ak = Inl e"
  shows "modify_application gh lib repo env service branch ak st
       = (Inl e, \<lparr>world = w1, trace = trace st
            @ [GetContents (application_path env service) (Some (default_branch repo))]\<rparr>)"
proof -
  have "rewrite_manifest lib (File cf) ak = Inl e"
    using raw parse change
    by (simp add: rewrite_manifest_def decoded_content_def rewrite_text_def)
  then show ?thesis
    by (simp add: modify_application_file [OF read])
qed

lemma subscript_other: "\<forall>items. v \<noteq> VDict items \<Longrightarrow> subscript v name = Inl TypeError"
  by (cases v) simp_all

lemma mutation_on_other_exact:
  assumes "\<forall>anl. an \<noteq> VDict anl"
  shows "(case ak of
         Some k \<Rightarrow> if k \<noteq> [] then setitem an k (VStr ''*'') else pop_default an (Some k)
       | None \<Rightarrow> pop_default an None)
     = Inl (if (\<exists>k. ak = Some k \<and> k \<noteq> []) \<or> (\<exists>xs. an = VList xs)
            then TypeError else AttributeError ''pop'')"
  using assms by (cases an) (auto split: option.splits)

text \<open>
  C10, as stated. A manifest whose \<^verbatim>\<open>annotations\<close> is left empty, so that
  \<^verbatim>\<open>metadata\<close> has no mapping under that key: pausing raises \<^verbatim>\<open>TypeError\<close>, which is
  not a \<^verbatim>\<open>LookupError\<close>, after the read alone.
\<close>

theorem null_annotations_raise_type_error:
  "modify_application
     (stub_github [(''envs/staging/c/application.yaml'',
                    manifest ''envs/staging/c/application.yaml'' null_annotations_app)] [])
     tree_lib repo0 (Some ''staging'') ''c'' ''pause-staging-2024-01-01''
     (Some (ignore_tags_key ''c'')) start
   = (Inl TypeError,
      \<lparr>world = (), trace = [GetContents ''envs/staging/c/application.yaml'' (Some ''main'')]\<rparr>)
   \<and> \<not> is_lookup_error TypeError"
  by (simp add: run_defs null_annotations_app_def)

text \<open>
  C10. For a manifest that was read and parsed, \<^verbatim>\<open>modify_application\<close> raises after
  the read alone, with no update in the trace, whenever the document has no dict under
  \<^verbatim>\<open>metadata.annotations\<close>: \<^verbatim>\<open>TypeError\<close> when the document is not a dict,
  \<^verbatim>\<open>KeyError\<close> when it has no \<^verbatim>\<open>metadata\<close>, \<^verbatim>\<open>TypeError\<close> when \<^verbatim>\<open>metadata\<close> is not
  a dict, \<^verbatim>\<open>KeyError\<close> when \<^verbatim>\<open>metadata\<close> has no \<^verbatim>\<open>annotations\<close>; and when
  \<^verbatim>\<open>annotations\<close> is not a dict, \<^verbatim>\<open>TypeError\<close> if there is a key to set or
  \<^verbatim>\<open>annotations\<close> is a list, \<^verbatim>\<open>AttributeError\<close> otherwise. On \<^verbatim>\<open>annotations\<close> that
  are a dict the change does not raise.
\<close>

theorem no_annotations_mapping_no_update:
  assumes read: "gh_get_contents gh repo (application_path env service)
                   (Some (default_branch repo)) (world st) = (Inr (File cf), w1)"
    and raw: "cf_decoded_content cf = Inr raw"
    and parse: "load_text lib raw = Inr app"
  shows "((\<forall>docl. app \<noteq> VDict docl) \<longrightarrow>
            modify_application gh lib repo env service branch ak st
              = (Inl TypeError, \<lparr>world = w1, trace = trace st
                   @ [GetContents (application_path env service) (Some (default_branch repo))]\<rparr>))
       \<and> (\<forall>docl. app = VDict docl \<and> map_of docl (KStr ''metadata'') = None \<longrightarrow>
            modify_application gh lib repo env service branch ak st
              = (Inl (KeyError ''metadata''), \<lparr>world = w1, trace = trace st
                   @ [GetContents (application_path env service) (Some (default_branch repo))]\<rparr>))
       \<and> (\<forall>docl md. app = VDict docl \<and> map_of docl (KStr ''metadata'') = Some md
              \<and> (\<forall>mdl. md \<noteq> VDict mdl) \<longrightarrow>
            modify_application gh lib repo env service branch ak st
              = (Inl TypeError, \<lparr>world = w1, trace = trace st
                   @ [GetContents (application_path env service) (Some (default_branch repo))]\<rparr>))
       \<and> (\<forall>docl mdl. app = VDict docl \<and> map_of docl (KStr ''metadata'') = Some (VDict mdl)
              \<and> map_of mdl (KStr ''annotations'') = None \<longrightarrow>
            modify_application gh lib repo env service branch ak st
              = (Inl (KeyError ''annotations''), \<lparr>world = w1, trace = trace st
                   @ [GetContents (application_path env service) (Some (default_branch repo))]\<rparr>))
       \<and> (\<forall>docl mdl an. app = VDict docl \<and> map_of docl (KStr ''metadata'') = Some (VDict mdl)
              \<and> map_of mdl (KStr ''annotations'') = Some an \<and> (\<forall>anl. an \<noteq> VDict anl) \<longrightarrow>
            modify_application gh lib repo env service branch ak st
              = (Inl (if (\<exists>k. ak = Some k \<and> k \<noteq> []) \<or> (\<exists>xs. an = VList xs)
                      then TypeError else AttributeError ''pop''),
                 \<lparr>world = w1, trace = trace st
                   @ [GetContents (application_path env service) (Some (default_branch repo))]\<rparr>))
       \<and> (\<forall>docl mdl anl. app = VDict docl \<and> map_of docl (KStr ''metadata'') = Some (VDict mdl)
              \<and> map_of mdl (KStr ''annotations'') = Some (VDict anl) \<longrightarrow>
            (\<exists>app'. mutate_annotations app ak = Inr app'))"
proof (intro conjI allI impI)
  assume "\<forall>docl. app \<noteq> VDict docl"
  then have "mutate_annotations app ak = Inl TypeError"
    by (simp add: mutate_annotations_cases with_annotations_def subscript_other)
  then show "modify_application gh lib repo env service branch ak st
              = (Inl TypeError, \<lparr>world = w1, trace = trace st
                   @ [GetContents (application_path env service) (Some (default_branch repo))]\<rparr>)"
    by (rule modify_application_change_fails [OF read raw parse])
next
  fix docl assume "app = VDict docl \<and> map_of docl (KStr ''metadata'') = None"
  then have "mutate_annotations app ak = Inl (KeyError ''metadata'')"
    by (simp add: mutate_annotations_cases with_annotations_def)
  then show "modify_application gh lib repo env service branch ak st
              = (Inl (KeyError ''metadata''), \<lparr>world = w1, trace = trace st
                   @ [GetContents (application_path env service) (Some (default_branch repo))]\<rparr>)"
    by (rule modify_application_change_fails [OF read raw parse])
next
  fix docl md
  assume "app = VDict docl \<and> map_of docl (KStr ''metadata'') = Some md
              \<and> (\<forall>mdl. md \<noteq> VDict mdl)"
  then have "mutate_annotations app ak = Inl TypeError"
    by (simp add: mutate_annotations_cases with_annotations_def subscript_other)
  then show "modify_application gh lib repo env service branch ak st
              = (Inl TypeError, \<lparr>world = w1, trace = trace st
                   @ [GetContents (application_path env service) (Some (default_branch repo))]\<rparr>)"
    by (rule modify_application_change_fails [OF read raw parse])
next
  fix docl mdl
  assume "app = VDict docl \<and> map_of docl (KStr ''metadata'') = Some (VDict mdl)
              \<and> map_of mdl (KStr ''annotations'') = None"
  then have "mutate_annotations app ak = Inl (KeyError ''annotations'')"
    by (simp add: mutate_annotations_cases with_annotations_def)
  then show "modify_application gh lib repo env service branch ak st
              = (Inl (KeyError ''annotations''), \<lparr>world = w1, trace = trace st
                   @ [GetContents (application_path env service) (Some (default_branch repo))]\<rparr>)"
    by (rule modify_application_change_fails [OF read raw parse])
next
  fix docl mdl an
  assume h: "app = VDict docl \<and> map_of docl (KStr ''metadata'') = Some (VDict mdl)
              \<and> map_of mdl (KStr ''annotations'') = Some an \<and> (\<forall>anl. an \<noteq> VDict anl)"
  then have "\<forall>anl. an \<noteq> VDict anl" by simp
  from mutation_on_other_exact [OF this, where ak = ak] h
  have "mutate_annotations app ak
      = Inl (if (\<exists>k. ak = Some k \<and> k \<noteq> []) \<or> (\<exists>xs. an = VList xs)
             then TypeError else AttributeError ''pop'')"
    by (simp add: mutate_annotations_cases with_annotations_dict)
  then show "modify_application gh lib repo env service branch ak st
              = (Inl (if (\<exists>k. ak = Some k \<and> k \<noteq> []) \<or> (\<exists>xs. an = VList xs)
                      then TypeError else AttributeError ''pop''),
                 \<lparr>world = w1, trace = trace st
                   @ [GetContents (application_path env service) (Some (default_branch repo))]\<rparr>)"
    by (rule modify_application_change_fails [OF read raw parse])
next
  fix docl mdl anl
  assume h: "app = VDict docl \<and> map_of docl (KStr ''metadata'') = Some (VDict mdl)
              \<and> map_of mdl (KStr ''annotations'') = Some (VDict anl)"
  from mutation_on_dict [where ak = ak and anl = anl] h
  show "\<exists>app'. mutate_annotations app ak = Inr app'"
    by (auto simp: mutate_annotations_cases with_annotations_dict)
qed

theorem no_annotations_mapping_no_update_witness:
  "modify_application
     (stub_github [(''envs/staging/c/application.yaml'',
                    manifest ''envs/staging/c/application.yaml'' bare_app)] [])
     tree_lib repo0 (Some ''staging'') ''c'' ''pause-staging-2024-01-01''
     (Some (ignore_tags_key ''c'')) start
   = (Inl (KeyError ''metadata''),
      \<lparr>world = (),
       trace = trace start
         @ [GetContents (application_path (Some ''staging'') ''c'')
              (Some (default_branch repo0))]\<rparr>)
   \<and> modify_application
     (stub_github [(''envs/staging/c/application.yaml'',
                    manifest ''envs/staging/c/application.yaml'' null_annotations_app)] [])
     tree_lib repo0 (Some ''staging'') ''c'' ''resume-staging-2024-01-01'' None start
   = (Inl (AttributeError ''pop''),
      \<lparr>world = (),
       trace = trace start
         @ [GetContents (application_path (Some ''staging'') ''c'')
              (Some (default_branch repo0))]\<rparr>)
   \<and> (\<exists>app'. mutate_annotations team_app None = Inr app')"
proof -
  let ?path = "''envs/staging/c/application.yaml''"
  have read1: "gh_get_contents (stub_github [(?path, manifest ?path bare_app)] [])
        repo0 (application_path (Some ''staging'') ''c'') (Some (default_branch repo0))
        (world start)
      = (Inr (File (manifest_file ?path bare_app)), ())"
    by (simp add: stub_github_def manifest_def application_path_def)
  have raw1: "cf_decoded_content (manifest_file ?path bare_app) = Inr bare_app"
    by (simp add: manifest_file_def)
  have parse1: "load_text tree_lib bare_app = Inr bare_app"
    by (simp add: load_text_def tree_lib_def)
  note one = no_annotations_mapping_no_update [OF read1 raw1 parse1,
      where ak = "Some (ignore_tags_key ''c'')" and branch = "''pause-staging-2024-01-01''"]
  have "bare_app = VDict [(KStr ''kind'', VStr ''Application'')]
      \<and> map_of [(KStr ''kind'', VStr ''Application'')] (KStr ''metadata'') = None"
    by (simp add: bare_app_def)
  with one have a: "modify_application (stub_github [(?path, manifest ?path bare_app)] [])
     tree_lib repo0 (Some ''staging'') ''c'' ''pause-staging-2024-01-01''
     (Some (ignore_tags_key ''c'')) start
   = (Inl (KeyError ''metadata''),
      \<lparr>world = (),
       trace = trace start
         @ [GetContents (application_path (Some ''staging'') ''c'')
              (Some (default_branch repo0))]\<rparr>)"
    by blast
  have read2: "gh_get_contents (stub_github [(?path, manifest ?path null_annotations_app)] [])
        repo0 (application_path (Some ''staging'') ''c'') (Some (default_branch repo0))
        (world start)
      = (Inr (File (manifest_file ?path null_annotations_app)), ())"
    by (simp add: stub_github_def manifest_def application_path_def)
  have raw2: "cf_decoded_content (manifest_file ?path null_annotations_app)
      = Inr null_annotations_app"
    by (simp add: manifest_file_def)
  have parse2: "load_text tree_lib null_annotations_app = Inr null_annotations_app"
    by (simp add: load_text_def tree_lib_def)
  note two = no_annotations_mapping_no_update [OF read2 raw2 parse2,
      where ak = None and branch = "''resume-staging-2024-01-01''"]
  have shape: "null_annotations_app
        = VDict [(KStr ''kind'', VStr ''Application''),
                 (KStr ''metadata'', VDict [(KStr ''name'', VStr ''svc''),
                                            (KStr ''annotations'', VNone)])]
      \<and> map_of [(KStr ''kind'', VStr ''Application''),
                 (KStr ''metadata'', VDict [(KStr ''name'', VStr ''svc''),
                                            (KStr ''annotations'', VNone)])] (KStr ''metadata'')
        = Some (VDict [(KStr ''name'', VStr ''svc''), (KStr ''annotations'', VNone)])
      \<and> map_of [(KStr ''name'', VStr ''svc''), (KStr ''annotations'', VNone)]
          (KStr ''annotations'') = Some VNone
      \<and> (\<forall>anl. VNone \<noteq> VDict anl)"
    by (simp add: null_annotations_app_def)
  from two have "\<forall>docl mdl an. null_annotations_app = VDict docl
        \<and> map_of docl (KStr ''metadata'') = Some (VDict mdl)
        \<and> map_of mdl (KStr ''annotations'') = Some an \<and> (\<forall>anl. an \<noteq> VDict anl) \<longrightarrow>
      modify_application (stub_github [(?path, manifest ?path null_annotations_app)] [])
        tree_lib repo0 (Some ''staging'') ''c'' ''resume-staging-2024-01-01'' None start
      = (Inl (if (\<exists>k. (None::string option) = Some k \<and> k \<noteq> []) \<or> (\<exists>xs. an = VList xs)
              then TypeError else AttributeError ''pop''),
         \<lparr>world = (), trace = trace start
           @ [GetContents (application_path (Some ''staging'') ''c'')
                (Some (default_branch repo0))]\<rparr>)"
    by blast
  from this [rule_format, OF shape]
  have b: "modify_application (stub_github [(?path, manifest ?path null_annotations_app)] [])
     tree_lib repo0 (Some ''staging'') ''c'' ''resume-staging-2024-01-01'' None start
   = (Inl (AttributeError ''pop''),
      \<lparr>world = (),
       trace = trace start
         @ [GetContents (application_path (Some ''staging'') ''c'')
              (Some (default_branch repo0))]\<rparr>)"
    by simp
  have read3: "gh_get_contents (stub_github [(?path, manifest ?path team_app)] [])
        repo0 (application_path (Some ''staging'') ''c'') (Some (default_branch repo0))
        (world start)
      = (Inr (File (manifest_file ?path team_app)), ())"
    by (simp add: stub_github_def manifest_def application_path_def)
  have raw3: "cf_decoded_content (manifest_file ?path team_app) = Inr team_app"
    by (simp add: manifest_file_def)
  have parse3: "load_text tree_lib team_app = Inr team_app"
    by (simp add: load_text_def tree_lib_def)
  note three = no_annotations_mapping_no_update [OF read3 raw3 parse3,
      where ak = None and branch = "''resume-staging-2024-01-01''"]
  have "team_app
        = VDict [(KStr ''kind'', VStr ''Application''),
                 (KStr ''metadata'', VDict [(KStr ''name'', VStr ''svc''),
                                            (KStr ''annotations'', VDict [(KStr ''team'', VStr ''x'')])])]
      \<and> map_of [(KStr ''kind'', VStr ''Application''),
                 (KStr ''metadata'', VDict [(KStr ''name'', VStr ''svc''),
                                            (KStr ''annotations'', VDict [(KStr ''team'', VStr ''x'')])])]
            (KStr ''metadata'')
        = Some (VDict [(KStr ''name'', VStr ''svc''),
                       (KStr ''annotations'', VDict [(KStr ''team'', VStr ''x'')])])
      \<and> map_of [(KStr ''name'', VStr ''svc''),
                 (KStr ''annotations'', VDict [(KStr ''team'', VStr ''x'')])] (KStr ''annotations'')
        = Some (VDict [(KStr ''team'', VStr ''x'')])"
    by (simp add: team_app_def application_def)
  with three have c: "\<exists>app'. mutate_annotations team_app None = Inr app'"
    by blast
  from a b c show ?thesis by blast
qed

subsection \<open>The batch\<close>

lemma handle_services_ok:
  assumes "act = Some ''pause'' \<or> act = Some ''resume''"
    and "handle_services gh lib repo env svcs branch act st = (Inr x, st')"
  shows "\<exists>tr. trace st' = trace st @ tr \<and> processed repo env branch svcs tr"
  using assms(2)
proof (induction svcs arbitrary: st)
  case Nil
  then show ?case by (simp add: pure_step_def)
next
  case (Cons svc svcs)
  define ak where "ak = (if act = Some ''pause'' then Some (ignore_tags_key (cf_name svc)) else None)"
  obtain r1 st1 where m: "modify_application gh lib repo env (cf_name svc) branch ak st = (r1, st1)"
    by (cases "modify_application gh lib repo env (cf_name svc) branch ak st")
  have step: "handle_services gh lib repo env (svc # svcs) branch act st =
      (case r1 of Inl e \<Rightarrow> (Inl e, st1)
       | Inr x \<Rightarrow> handle_services gh lib repo env svcs branch act st1)"
    using assms(1) m by (auto simp: and_then_def ak_def split: sum.splits)
  from step Cons.prems obtain y where r1: "r1 = Inr y"
    and rest: "handle_services gh lib repo env svcs branch act st1 = (Inr x, st')"
    by (cases r1) auto
  from Cons.IH [OF rest] obtain tr where
    t: "trace st' = trace st1 @ tr" and p: "processed repo env branch svcs tr"
    by blast
  from m r1 obtain u where u: "trace st1 = trace st @ [service_read repo env svc, u]"
    "is_update_on branch (commit_message env (cf_name svc)) u"
    using modify_application_done by blast
  have "trace st' = trace st @ (service_read repo env svc # u # tr)
      \<and> processed repo env branch (svc # svcs) (service_read repo env svc # u # tr)"
    using t p u by simp
  then show ?case by blast
qed

lemma processed_no_pull: "processed repo env branch svcs tr \<Longrightarrow> \<not> list_ex is_pull tr"
proof (induction svcs arbitrary: tr)
  case Nil
  then show ?case by simp
next
  case (Cons svc svcs)
  then obtain r u rest where tr: "tr = r # u # rest"
    by (cases tr; cases "tl tr") auto
  with Cons show ?case
    by (cases u) (auto simp: service_read_def)
qed

lemma attempted_no_pull: "attempted repo env branch svc tr \<Longrightarrow> \<not> list_ex is_pull tr"
  by (cases tr; cases "tl tr"; cases "tl (tl tr)"; cases "hd (tl tr)")
     (auto simp: attempted_def service_read_def)

lemma create_branch_trace:
  assumes "create_branch gh repo branch st = (Inr x, st1)"
  shows "\<exists>sha. trace st1 = trace st @ [GetBranch (default_branch repo),
                                        CreateGitRef (''refs/heads/'' @ branch) sha]"
  using assms
  by (auto simp: create_branch_def and_then_def perform_eq split: sum.splits prod.splits)

lemma handle_services_append:
  "handle_services gh lib repo env (xs @ ys) branch act
     = and_then (handle_services gh lib repo env xs branch act)
         (\<lambda>u. handle_services gh lib repo env ys branch act)"
  by (induction xs) (simp_all add: and_then_pure and_then_assoc)

lemma handle_services_step:
  assumes "act = Some ''pause'' \<or> act = Some ''resume''"
  shows "handle_services gh lib repo env (svc # svcs) branch act
       = and_then (modify_application gh lib repo env (cf_name svc) branch
                     (service_key act (cf_name svc)))
           (\<lambda>u. handle_services gh lib repo env svcs branch act)"
  using assms by (auto simp: service_key_def)

lemma modify_application_refused:
  assumes "client_refuses gh lib repo env service branch ak (world st) e w'"
  shows "\<exists>st'. modify_application gh lib repo env service branch ak st = (Inl e, st')
              \<and> world st' = w'"
proof -
  obtain res w1 where g: "gh_get_contents gh repo (application_path env service)
      (Some (default_branch repo)) (world st) = (res, w1)"
    by (cases "gh_get_contents gh repo (application_path env service)
      (Some (default_branch repo)) (world st)")
  show ?thesis
  proof (cases res)
    case (Inl e1)
    with g assms show ?thesis
      by (simp add: client_refuses_def modify_application_read_fails)
  next
    case (Inr c)
    show ?thesis
    proof (cases c)
      case (File cf)
      with g Inr assms show ?thesis
        by (auto simp: client_refuses_def modify_application_file split: sum.splits)
    next
      case (Dir entries)
      with g Inr assms show ?thesis
        by (simp add: client_refuses_def)
    qed
  qed
qed

lemma handle_services_refused:
  assumes act: "act = Some ''pause'' \<or> act = Some ''resume''"
    and i: "i < length svcs"
    and before: "handle_services gh lib repo env (take i svcs) branch act st = (Inr y, sti)"
    and refused: "client_refuses gh lib repo env (cf_name (svcs ! i)) branch
                    (service_key act (cf_name (svcs ! i))) (world sti) e w'"
  shows "\<exists>stf tr1 tr2. handle_services gh lib repo env svcs branch act st = (Inl e, stf)
           \<and> world stf = w'
           \<and> trace stf = trace st @ tr1 @ tr2
           \<and> processed repo env branch (take i svcs) tr1
           \<and> attempted repo env branch (svcs ! i) tr2"
proof -
  from modify_application_refused [OF refused] obtain stf where
    m: "modify_application gh lib repo env (cf_name (svcs ! i)) branch
          (service_key act (cf_name (svcs ! i))) sti = (Inl e, stf)"
    and w: "world stf = w'"
    by blast
  from handle_services_ok [OF act before] obtain tr1 where
    t1: "trace sti = trace st @ tr1" and p: "processed repo env branch (take i svcs) tr1"
    by blast
  from modify_application_attempted [OF m] obtain tr2 where
    t2: "trace stf = trace sti @ tr2" and a: "attempted repo env branch (svcs ! i) tr2"
    by blast
  have split: "svcs = take i svcs @ (svcs ! i) # drop (Suc i) svcs"
    using i by (simp add: id_take_nth_drop)
  have "handle_services gh lib repo env ((svcs ! i) # drop (Suc i) svcs) branch act sti
      = (Inl e, stf)"
    using m by (simp only: handle_services_step [OF act] and_then_Inl)
  then have "handle_services gh lib repo env (take i svcs @ (svcs ! i) # drop (Suc i) svcs)
      branch act st = (Inl e, stf)"
    using before by (simp only: handle_services_append and_then_Inr)
  with split have "handle_services gh lib repo env svcs branch act st = (Inl e, stf)"
    by simp
  with w t1 t2 p a show ?thesis by auto
qed

text \<open>
  C4. A run of \<^verbatim>\<open>pause\<close> or \<^verbatim>\<open>resume\<close> in which the branch was created and the
  services were listed. Let the services before position \<open>i\<close> go through
  \<^verbatim>\<open>handle_services\<close> without an exception, and let the client then refuse service \<open>i\<close>
  with the exception \<open>e\<close>: it refuses the read of the manifest, or serves it and refuses the
  update. Then \<^verbatim>\<open>handle_services\<close> raises \<open>e\<close> and the run ends with it, in the remote
  state the refusal left. The calls made since the listing are, for each service before \<open>i\<close>
  in order, one read and one update, followed by the read of service \<open>i\<close> and at most one
  update of it; nothing follows, and none of the calls of the run is a pull request.
\<close>

theorem failed_service_stops_run:
  assumes act: "action args = Some ''pause'' \<or> action args = Some ''resume''"
    and cb: "create_branch gh repo branch_name st = (Inr x, st1)"
    and ls: "gh_get_contents gh repo (''envs/'' @ fmt (target_env args)) None (world st1)
               = (Inr (Dir services), w2)"
    and i: "i < length services"
    and before: "handle_services gh lib repo (target_env args) (take i services) branch_name
               (action args)
               \<lparr>world = w2, trace = trace st1 @ [GetContents (''envs/'' @ fmt (target_env args)) None]\<rparr>
               = (Inr y, sti)"
    and refused: "client_refuses gh lib repo (target_env args) (cf_name (services ! i))
               branch_name (service_key (action args) (cf_name (services ! i))) (world sti) e w'"
  shows "\<exists>stf tr1 tr2.
           handle_services gh lib repo (target_env args) services branch_name (action args)
             \<lparr>world = w2, trace = trace st1 @ [GetContents (''envs/'' @ fmt (target_env args)) None]\<rparr>
             = (Inl e, stf)
         \<and> run_action gh lib repo args branch_name st = (Inl e, stf)
         \<and> world stf = w'
         \<and> trace stf = trace st1 @ [GetContents (''envs/'' @ fmt (target_env args)) None] @ tr1 @ tr2
         \<and> processed repo (target_env args) branch_name (take i services) tr1
         \<and> attempted repo (target_env args) branch_name (services ! i) tr2
         \<and> \<not> list_ex is_pull (drop (length (trace st)) (trace stf))"
proof -
  from handle_services_refused [OF act i before refused] obtain stf tr1 tr2 where
    hs: "handle_services gh lib repo (target_env args) services branch_name (action args)
           \<lparr>world = w2, trace = trace st1 @ [GetContents (''envs/'' @ fmt (target_env args)) None]\<rparr>
         = (Inl e, stf)"
    and w: "world stf = w'"
    and t: "trace stf = (trace st1 @ [GetContents (''envs/'' @ fmt (target_env args)) None])
              @ tr1 @ tr2"
    and p: "processed repo (target_env args) branch_name (take i services) tr1"
    and a: "attempted repo (target_env args) branch_name (services ! i) tr2"
    by auto
  have run: "run_action gh lib repo args branch_name st = (Inl e, stf)"
    using act cb ls hs
    by (auto simp: run_action_def and_then_def perform_eq)
  from create_branch_trace [OF cb] obtain sha where
    b: "trace st1 = trace st @ [GetBranch (default_branch repo),
                                CreateGitRef (''refs/heads/'' @ branch_name) sha]"
    by blast
  have "\<not> list_ex is_pull (drop (length (trace st)) (trace stf))"
    using t b processed_no_pull [OF p] attempted_no_pull [OF a] by simp
  with hs run w t p a show ?thesis by auto
qed

theorem failed_service_stops_run_witness:
  "run_action (stub_github staging [''envs/staging/b/application.yaml'']) tree_lib repo0
      (cli ''pause'') ''pause-staging-2024-01-01'' start
     = (Inl (GithubException 409), stopped_at_b)
   \<and> \<not> list_ex is_pull (drop (length (trace start)) (trace stopped_at_b))"
proof -
  let ?gh = "stub_github staging [''envs/staging/b/application.yaml'']"
  have act: "action (cli ''pause'') = Some ''pause'' \<or> action (cli ''pause'') = Some ''resume''"
    by (simp add: cli_def)
  have cb: "create_branch ?gh repo0 ''pause-staging-2024-01-01'' start = (Inr (), branch_made)"
    by (simp add: run_defs branch_made_def)
  have ls: "gh_get_contents ?gh repo0
      (''envs/'' @ fmt (target_env (cli ''pause''))) None (world branch_made)
      = (Inr (Dir [entry ''a'', entry ''b'']), ())"
    by (simp add: stub_github_def staging_def cli_def)
  have i: "1 < length [entry ''a'', entry ''b'']"
    by simp
  have before: "handle_services ?gh tree_lib
      repo0 (target_env (cli ''pause'')) (take 1 [entry ''a'', entry ''b''])
      ''pause-staging-2024-01-01'' (action (cli ''pause''))
      \<lparr>world = (), trace = trace branch_made
          @ [GetContents (''envs/'' @ fmt (target_env (cli ''pause''))) None]\<rparr>
      = (Inr (), after_a)"
    by (simp add: run_defs branch_made_def after_a_def stopped_at_b_def)
  have refused: "client_refuses ?gh tree_lib repo0 (target_env (cli ''pause''))
      (cf_name ([entry ''a'', entry ''b''] ! 1)) ''pause-staging-2024-01-01''
      (service_key (action (cli ''pause'')) (cf_name ([entry ''a'', entry ''b''] ! 1)))
      (world after_a) (GithubException 409) ()"
    by (simp add: client_refuses_def service_key_def run_defs)
  from failed_service_stops_run [OF act cb ls i before refused]
  obtain stf where r: "run_action ?gh tree_lib repo0 (cli ''pause'') ''pause-staging-2024-01-01''
        start = (Inl (GithubException 409), stf)"
    and n: "\<not> list_ex is_pull (drop (length (trace start)) (trace stf))"
    by blast
  have "run_action ?gh tree_lib repo0 (cli ''pause'') ''pause-staging-2024-01-01'' start
      = (Inl (GithubException 409), stopped_at_b)"
    by (simp add: run_defs stopped_at_b_def)
  with r have "stf = stopped_at_b" by simp
  with r n show ?thesis by simp
qed

text \<open>
  After the branch name, any action other than \<^verbatim>\<open>pause\<close> and \<^verbatim>\<open>resume\<close> creates the
  branch and does nothing more.
\<close>

lemma run_action_other:
  assumes "action args \<noteq> Some ''pause''" and "action args \<noteq> Some ''resume''"
  shows "run_action gh lib repo args branch_name st
       = (case create_branch gh repo branch_name st of
            (Inl e, st') \<Rightarrow> (Inl e, st')
          | (Inr x, st') \<Rightarrow> (Inr (), st'))"
  using assms
  by (simp add: run_action_def and_then_def pure_step_def split: prod.splits sum.splits)

subsection \<open>What the dump keeps\<close>

lemma set_sorted_items: "set (sorted_items xs) = set xs"
  by (simp add: sorted_items_def)

lemma distinct_keys_sorted_items:
  "distinct (map fst (sorted_items xs)) = distinct (map fst xs)"
  by (simp add: sorted_items_def distinct_map)

lemma map_of_sorted_items:
  assumes "distinct (map fst xs)"
  shows "map_of (sorted_items xs) = map_of xs"
  using assms by (simp add: map_of_inject_set distinct_keys_sorted_items set_sorted_items)

lemma keys_represented: "map fst (map (\<lambda>(k, v). (k, represent v)) items) = map fst items"
  by (induction items) auto

lemma map_of_represented:
  assumes "distinct (map fst items)"
  shows "map_of (sorted_items (map (\<lambda>(k, v). (k, represent v)) items)) k
       = map_option represent (map_of items k)"
proof -
  have "distinct (map fst (map (\<lambda>(k, v). (k, represent v)) items))"
    using assms by (simp only: keys_represented)
  then have "map_of (sorted_items (map (\<lambda>(k, v). (k, represent v)) items))
           = map_of (map (\<lambda>(k, v). (k, represent v)) items)"
    by (rule map_of_sorted_items)
  then show ?thesis
    by (simp add: map_of_map)
qed








lemma insort_key_map:
  "insort_key h (f x) (map f xs) = map f (insort_key (\<lambda>y. h (f y)) x xs)"
  by (induction xs) auto

lemma sort_key_map: "sort_key h (map f xs) = map f (sort_key (\<lambda>y. h (f y)) xs)"
  by (induction xs) (simp_all add: insort_key_map)

lemma sorted_items_map:
  assumes "\<And>x. fst (f x) = fst x"
  shows "sorted_items (map f xs) = map f (sorted_items xs)"
  using assms by (simp add: sorted_items_def sort_key_map list_all_iff)







subsection \<open>Pausing twice\<close>

lemma sorted_items_idem: "sorted_items (sorted_items xs) = sorted_items xs"
  by (simp add: sorted_items_def sort_key_id_if_sorted list_all_iff)

lemma represent_idem: "represent (represent v) = represent v"
proof (induction v rule: represent.induct)
  case (1 xs)
  then show ?case by simp
next
  case (2 items)
  let ?f = "\<lambda>(k, v). (k, represent v)"
  have f: "\<And>x. fst (?f x) = fst x" by (simp add: split_def)
  have "map ?f (map ?f items) = map ?f items"
    using 2 by (auto simp: split_def)
  moreover have "map ?f (sorted_items (map ?f items)) = sorted_items (map ?f (map ?f items))"
    using sorted_items_map [of ?f "map ?f items", OF f] by simp
  ultimately have "sorted_items (map ?f (sorted_items (map ?f items)))
      = sorted_items (sorted_items (map ?f items))"
    by (simp only:)
  then have "sorted_items (map ?f (sorted_items (map ?f items))) = sorted_items (map ?f items)"
    by (simp only: sorted_items_idem)
  then show ?case
    by (simp only: represent.simps)
qed simp_all

lemma subscript_represent:
  assumes "subscript (VDict items) name = Inr v" and "distinct (map fst items)"
  shows "subscript (represent (VDict items)) name = Inr (represent v)"
proof -
  from assms(1) have "map_of items (KStr name) = Some v"
    by (simp split: option.splits)
  then have "map_of (sorted_items (map (\<lambda>(k, v). (k, represent v)) items)) (KStr name)
           = Some (represent v)"
    using map_of_represented [OF assms(2)] by simp
  then show ?thesis by simp
qed

lemma wf_at_annotations:
  assumes "wf_doc (VDict docl)"
    and "map_of docl (KStr ''metadata'') = Some (VDict mdl)"
    and "map_of mdl (KStr ''annotations'') = Some (VDict anl)"
  shows "distinct (map fst docl) \<and> distinct (map fst mdl) \<and> distinct (map fst anl)"
proof -
  have "(KStr ''metadata'', VDict mdl) \<in> set docl"
    using assms(2) by (rule map_of_SomeD)
  moreover from assms(1) have "\<forall>kv\<in>set docl. wf_doc (snd kv)"
    by (simp add: list_all_iff)
  ultimately have "wf_doc (snd (KStr ''metadata'', VDict mdl))" by blast
  then have m: "wf_doc (VDict mdl)" by (simp only: snd_conv)
  have "(KStr ''annotations'', VDict anl) \<in> set mdl"
    using assms(3) by (rule map_of_SomeD)
  moreover from m have "\<forall>kv\<in>set mdl. wf_doc (snd kv)"
    by (simp add: list_all_iff)
  ultimately have "wf_doc (snd (KStr ''annotations'', VDict anl))" by blast
  then have "wf_doc (VDict anl)" by (simp only: snd_conv)
  with m assms(1) show ?thesis by simp
qed

lemma set_annotation_represent:
  assumes "wf_doc d" and "set_annotation d k = Inr d'"
  shows "set_annotation (represent d') k = Inr (represent d')"
proof -
  from set_annotation_Inr [OF assms(2)] obtain docl mdl anl where
    d: "d = VDict docl" and md: "map_of docl (KStr ''metadata'') = Some (VDict mdl)"
    and an: "map_of mdl (KStr ''annotations'') = Some (VDict anl)"
    and d': "d' = VDict (AList.update (KStr ''metadata'')
                  (VDict (AList.update (KStr ''annotations'')
                     (VDict (AList.update (KStr k) (VStr ''*'') anl)) mdl)) docl)"
    by blast
  define anl' where "anl' = AList.update (KStr k) (VStr ''*'') anl"
  define mdl' where "mdl' = AList.update (KStr ''annotations'') (VDict anl') mdl"
  define docl' where "docl' = AList.update (KStr ''metadata'') (VDict mdl') docl"
  from wf_at_annotations [OF assms(1) [unfolded d] md an]
  have dist: "distinct (map fst docl')" "distinct (map fst mdl')" "distinct (map fst anl')"
    by (simp_all add: docl'_def mdl'_def anl'_def distinct_update)
  have 1: "subscript (represent (VDict docl')) ''metadata'' = Inr (represent (VDict mdl'))"
    by (rule subscript_represent) (simp_all add: docl'_def update_conv' dist [unfolded docl'_def])
  have 2: "subscript (represent (VDict mdl')) ''annotations'' = Inr (represent (VDict anl'))"
    by (rule subscript_represent) (simp_all add: mdl'_def update_conv' dist(2) [unfolded mdl'_def])
  have 3: "map_of (sorted_items (map (\<lambda>(k, v). (k, represent v)) anl')) (KStr k)
             = Some (VStr ''*'')"
    using dist(3) by (simp add: map_of_represented anl'_def update_conv')
  have s2: "subscript (represent (VDict mdl')) ''annotations''
             = Inr (VDict (sorted_items (map (\<lambda>(k, v). (k, represent v)) anl')))"
    using 2 by simp
  have "set_annotation (represent (VDict docl')) k = Inr (represent (VDict docl'))"
    by (rule set_annotation_present [OF 1 s2 3])
  then show ?thesis
    by (simp only: d' docl'_def mdl'_def anl'_def)
qed

text \<open>
  C5. Let a manifest parse to a document \<open>d\<close> in which every dict has each key once, and
  let the text that pausing writes parse back to the tree that was emitted. Then pausing
  the text already paused, with the same key, yields that very text; and where pausing
  raises, it raises the same way.
\<close>

theorem pause_twice_same_text:
  assumes readback: "\<And>d'. set_annotation d k = Inr d'
                        \<Longrightarrow> load_text lib (yaml_dump lib d') = Inr (represent d')"
    and parse: "load_text lib raw = Inr d"
    and wf: "wf_doc d"
    and k: "k \<noteq> []"
  shows "(case rewrite_text lib raw (Some k) of
            Inl e \<Rightarrow> Inl e
          | Inr text \<Rightarrow> rewrite_text lib text (Some k))
       = rewrite_text lib raw (Some k)"
proof (cases "set_annotation d k")
  case (Inl e)
  with parse k show ?thesis
    by (simp add: rewrite_text_def mutate_annotations_def)
next
  case (Inr d')
  have once: "rewrite_text lib raw (Some k) = Inr (yaml_dump lib d')"
    using parse k Inr by (simp add: rewrite_text_def mutate_annotations_def)
  have "rewrite_text lib (yaml_dump lib d') (Some k) = Inr (yaml_dump lib (represent d'))"
    using k set_annotation_represent [OF wf Inr] readback [OF Inr]
    by (simp add: rewrite_text_def mutate_annotations_def)
  with once show ?thesis
    by (simp add: yaml_dump_def represent_idem)
qed

theorem pause_twice_same_text_witness:
  "(case rewrite_text tree_lib (application [(KStr ''team'', VStr ''x'')])
           (Some (ignore_tags_key ''a'')) of
      Inl e \<Rightarrow> Inl e
    | Inr text \<Rightarrow> rewrite_text tree_lib text (Some (ignore_tags_key ''a'')))
   = rewrite_text tree_lib (application [(KStr ''team'', VStr ''x'')])
       (Some (ignore_tags_key ''a''))"
proof -
  have readback: "\<And>d'. set_annotation (application [(KStr ''team'', VStr ''x'')])
                          (ignore_tags_key ''a'') = Inr d'
      \<Longrightarrow> load_text tree_lib (yaml_dump tree_lib d') = Inr (represent d')"
    by (simp add: load_text_def tree_lib_def yaml_dump_def)
  have parse: "load_text tree_lib (application [(KStr ''team'', VStr ''x'')])
      = Inr (application [(KStr ''team'', VStr ''x'')])"
    by (simp add: load_text_def tree_lib_def)
  have wf: "wf_doc (application [(KStr ''team'', VStr ''x'')])"
    by (simp add: application_def)
  have k: "ignore_tags_key ''a'' \<noteq> []"
    by (simp add: ignore_tags_key_def)
  show ?thesis
    by (rule pause_twice_same_text [OF readback parse wf k])
qed

end
